theory Spec2Isabelle
  imports Complex_Main
begin

section \<open>Splitting a history window: \<open>generateIntervals\<close> (services/utils.js)\<close>

subsection \<open>JavaScript numbers\<close>

text \<open>
  A JavaScript number is an IEEE 754 double. A finite double is the rational number it
  denotes; the result of an arithmetic operation is the exact result rounded to 53
  significant bits, to nearest, ties to the even significand. \<open>bits\<close> is the length of
  a positive integer in bits, \<open>exponent x\<close> the power of two at or below the
  magnitude of \<open>x\<close>, and \<open>fl\<close> the rounding. Overflow and subnormal numbers are left
  out: the numbers of \<open>generateIntervals\<close> are integers (times in milliseconds, their
  sums and products) and one quotient above 1.
\<close>

function bits :: "int \<Rightarrow> nat" where
  "bits n = (if n \<le> 0 then 0 else Suc (bits (n div 2)))"
  by pat_completeness auto
termination
  by (relation "measure nat") auto

declare bits.simps [simp del]

definition pow2 :: "int \<Rightarrow> rat" where
  "pow2 k = (if 0 \<le> k then 2 ^ nat k else 1 / 2 ^ nat (- k))"

definition exponent :: "rat \<Rightarrow> int" where
  "exponent x =
     (if 1 \<le> \<bar>x\<bar> then int (bits \<lfloor>\<bar>x\<bar>\<rfloor>) - 1
      else - int (bits (\<lceil>1 / \<bar>x\<bar>\<rceil> - 1)))"

definition roundHalfEven :: "rat \<Rightarrow> int" where
  "roundHalfEven y =
     (let f = \<lfloor>y\<rfloor>; r = y - of_int f
      in if r < 1 / 2 then f else if 1 / 2 < r then f + 1 else if even f then f else f + 1)"

definition fl :: "rat \<Rightarrow> rat" where
  "fl x = (if x = 0 then 0
           else (let u = pow2 (exponent x - 52) in of_int (roundHalfEven (x / u)) * u))"

subsection \<open>Dates and intervals\<close>

text \<open>
  A \<open>Date\<close> holds a time value: an integer number of milliseconds since the epoch, at
  most 8640000000000000 in magnitude, or \<open>NaN\<close> for an invalid date (\<open>None\<close> here).
  \<open>new Date(v)\<close> gives an invalid date when \<open>v\<close> is out of that range and drops
  the fraction of \<open>v\<close> otherwise. Comparing an invalid date with \<open><\<close> is false.
  The two dates given to \<open>generateIntervals\<close> are valid dates, given by their time
  values; \<open>maxInterval\<close> is the configured number of seconds, an integer.
\<close>

type_synonym date = "int option"

definition newDate :: "rat \<Rightarrow> date" where
  "newDate v =
     (if \<bar>v\<bar> > 8640000000000000 then None
      else Some (if 0 \<le> v then \<lfloor>v\<rfloor> else \<lceil>v\<rceil>))"

definition earlier :: "date \<Rightarrow> int \<Rightarrow> bool" where
  "earlier d t = (case d of None \<Rightarrow> False | Some v \<Rightarrow> v < t)"

record interval =
  startTime :: date
  endTime :: date

text \<open>One pass of the loop body: the interval pushed for counter \<open>i\<close>.\<close>

definition newInterval :: "int \<Rightarrow> int \<Rightarrow> int \<Rightarrow> nat \<Rightarrow> interval" where
  "newInterval startT endT maxInterval i =
     (let newStartTime =
            newDate (fl (of_int startT + fl (fl (of_nat i * 1000) * of_int maxInterval)));
          newEndTime =
            newDate (fl (of_int startT
                           + fl (fl (fl (of_nat i + 1) * 1000) * of_int maxInterval)))
      in \<lparr>startTime = newStartTime,
          endTime = (if earlier newEndTime endT then newEndTime else Some endT)\<rparr>)"

text \<open>The \<open>for (let i = 0; i < numberOfInterval; i += 1)\<close> loop with its accumulator.\<close>

function intervalLoop :: "rat \<Rightarrow> int \<Rightarrow> int \<Rightarrow> int \<Rightarrow> nat \<Rightarrow> interval list \<Rightarrow> interval list" where
  "intervalLoop numberOfInterval startT endT maxInterval i intervalLists =
     (if of_nat i < numberOfInterval
      then intervalLoop numberOfInterval startT endT maxInterval (i + 1)
             (intervalLists @ [newInterval startT endT maxInterval i])
      else intervalLists)"
  by pat_completeness auto
termination
proof (relation "measure (\<lambda>(q, s, e, m, i, acc). nat \<lceil>q\<rceil> - i)")
  show "wf (measure (\<lambda>(q, s, e, m, i, acc). nat \<lceil>q\<rceil> - i))"
    by simp
next
  fix numberOfInterval :: rat and startT endT maxInterval :: int and i :: nat
    and intervalLists :: "interval list"
  assume lt: "of_nat i < numberOfInterval"
  have "int i < \<lceil>numberOfInterval\<rceil>"
    using lt by (simp add: less_ceiling_iff)
  then show "((numberOfInterval, startT, endT, maxInterval, i + 1,
               intervalLists @ [newInterval startT endT maxInterval i]),
              (numberOfInterval, startT, endT, maxInterval, i, intervalLists))
             \<in> measure (\<lambda>(q, s, e, m, i, acc). nat \<lceil>q\<rceil> - i)"
    by simp
qed

text \<open>
  \<open>generateIntervals\<close>. Each arithmetic operation of the source is rounded:
  \<open>endTime.getTime() - startTime.getTime()\<close>, \<open>1000 * maxInterval\<close>, the quotient
  \<open>originalInterval / (maxInterval * 1000)\<close>, and in the loop
  \<open>startTime.getTime() + i * 1000 * maxInterval\<close>, read as the source is parsed:
  \<open>(i * 1000) * maxInterval\<close> added to the start. The counter \<open>i\<close> is a natural
  number (counting by one is exact far beyond any number of passes).
\<close>

definition generateIntervals :: "int \<Rightarrow> int \<Rightarrow> int \<Rightarrow> interval list" where
  "generateIntervals startT endT maxInterval =
     (let originalInterval = fl (of_int endT - of_int startT)
      in if maxInterval > 0
            \<and> fl (of_int endT - of_int startT) > fl (1000 * of_int maxInterval)
         then (let numberOfInterval = fl (originalInterval / fl (of_int maxInterval * 1000))
               in intervalLoop numberOfInterval startT endT maxInterval 0 [])
         else [\<lparr>startTime = Some startT, endTime = Some endT\<rparr>])"

text \<open>
  For stating what the loop computes: the number of sub-intervals of the window in exact
  arithmetic, the least natural number that is not below the exact quotient; the
  \<open>i\<close>-th sub-interval in exact arithmetic; and the time values of valid dates.
\<close>

definition intervalCount :: "int \<Rightarrow> int \<Rightarrow> int \<Rightarrow> nat" where
  "intervalCount startT endT maxInterval =
     nat \<lceil>(of_int (endT - startT) :: rat) / of_int (maxInterval * 1000)\<rceil>"

definition exactInterval :: "int \<Rightarrow> int \<Rightarrow> int \<Rightarrow> nat \<Rightarrow> interval" where
  "exactInterval startT endT maxInterval i =
     \<lparr>startTime = Some (startT + int i * 1000 * maxInterval),
      endTime = Some (min (startT + (int i + 1) * 1000 * maxInterval) endT)\<rparr>"

definition validDate :: "int \<Rightarrow> bool" where
  "validDate t = (\<bar>t\<bar> \<le> 8640000000000000)"


section \<open>Outgoing file names (services/utils.js, north-sftp.ts)\<close>

text \<open>
  JavaScript strings are sequences of code units; they are lists of characters here.
  \<open>String.prototype.lastIndexOf\<close> gives the index of the last occurrence, or \<open>-1\<close>;
  \<open>String.prototype.slice\<close> counts a negative bound from the end and clamps both
  bounds to the string.
\<close>

definition lastIndexOf :: "string \<Rightarrow> char \<Rightarrow> int" where
  "lastIndexOf s c =
     (if c \<in> set s
      then int (length s) - 1 - int (length (takeWhile (\<lambda>x. x \<noteq> c) (rev s)))
      else - 1)"

definition slice :: "string \<Rightarrow> int \<Rightarrow> int \<Rightarrow> string" where
  "slice s b e =
     (let len = int (length s);
          from = (if b < 0 then max (len + b) 0 else min b len);
          to = (if e < 0 then max (len + e) 0 else min e len)
      in take (nat (to - from)) (drop (nat from) s))"

text \<open>
  \<open>String.prototype.replace\<close> with a string pattern replaces the first occurrence only.
  In the replacement text, \<open>$$\<close> stands for a dollar sign, \<open>$&\<close> for the matched
  text, \<open>$`\<close> for what precedes the match and \<open>$'\<close> for what follows it; with a
  string pattern there are no groups, and any other text is inserted as it is.
\<close>

fun substitution :: "string \<Rightarrow> string \<Rightarrow> string \<Rightarrow> string \<Rightarrow> string" where
  "substitution matched preceding following [] = []"
| "substitution matched preceding following [c] = [c]"
| "substitution matched preceding following (c # d # r) =
     (if c = CHR ''$'' \<and> d = CHR ''$'' then CHR ''$'' # substitution matched preceding following r
      else if c = CHR ''$'' \<and> d = CHR ''&'' then matched @ substitution matched preceding following r
      else if c = CHR ''$'' \<and> d = CHR 0x60 then preceding @ substitution matched preceding following r
      else if c = CHR ''$'' \<and> d = CHR 0x27 then following @ substitution matched preceding following r
      else c # substitution matched preceding following (d # r))"

fun replaceFrom :: "string \<Rightarrow> string \<Rightarrow> string \<Rightarrow> string \<Rightarrow> string" where
  "replaceFrom pat rep preceding [] =
     (if pat = [] then preceding @ substitution pat preceding [] rep else preceding)"
| "replaceFrom pat rep preceding (c # cs) =
     (if take (length pat) (c # cs) = pat
      then preceding @ substitution pat preceding (drop (length pat) (c # cs)) rep
             @ drop (length pat) (c # cs)
      else replaceFrom pat rep (preceding @ [c]) cs)"

definition replace :: "string \<Rightarrow> string \<Rightarrow> string \<Rightarrow> string" where
  "replace pat rep s = replaceFrom pat rep [] s"

text \<open>
  \<open>path.parse\<close> of Node.js (POSIX flavour), restricted to the two fields the source
  reads: \<open>name\<close> and \<open>ext\<close>. The base is what follows the last separator, trailing
  separators dropped; the extension starts at the last dot of the base, unless that dot is
  the first character of the base or the base is \<open>..\<close>.
\<close>

record parsed_path =
  name :: string
  ext :: string

definition basename :: "string \<Rightarrow> string" where
  "basename filePath =
     rev (takeWhile (\<lambda>c. c \<noteq> CHR ''/'') (dropWhile (\<lambda>c. c = CHR ''/'') (rev filePath)))"

definition path_parse :: "string \<Rightarrow> parsed_path" where
  "path_parse filePath =
     (let base = basename filePath;
          dot = lastIndexOf base (CHR ''.'')
      in if dot \<le> 0 \<or> base = ''..'' then \<lparr>name = base, ext = []\<rparr>
         else \<lparr>name = take (nat dot) base, ext = drop (nat dot) base\<rparr>)"

text \<open>\<open>generateFormDataBodyFromFile\<close>: the \<open>filename\<close> option given to the form.\<close>

definition generateFormDataBodyFromFile :: "string \<Rightarrow> string" where
  "generateFormDataBodyFromFile filePath =
     (let p = path_parse filePath;
          filename = slice (name p) 0 (lastIndexOf (name p) (CHR ''-''))
      in filename @ ext p)"

text \<open>
  \<open>NorthSFTP.handleFile\<close>: the remote target the file is put to. \<open>nowDate\<close> is the
  formatted current date; an absent or empty prefix or suffix counts as the empty string.
\<close>

record sftp_settings =
  remoteFolder :: string
  prefix :: "string option"
  suffix :: "string option"

definition orEmpty :: "string option \<Rightarrow> string" where
  "orEmpty x = (case x of None \<Rightarrow> [] | Some s \<Rightarrow> s)"

definition expand :: "string \<Rightarrow> string \<Rightarrow> string option \<Rightarrow> string" where
  "expand nowDate connectorName x =
     replace ''@ConnectorName'' connectorName (replace ''@CurrentDate'' nowDate (orEmpty x))"

definition resultingFilename :: "sftp_settings \<Rightarrow> string \<Rightarrow> string \<Rightarrow> string \<Rightarrow> string" where
  "resultingFilename settings connectorName nowDate filePath =
     (let p = path_parse filePath;
          filename = slice (name p) 0 (lastIndexOf (name p) (CHR ''-''));
          pre = expand nowDate connectorName (prefix settings);
          suf = expand nowDate connectorName (suffix settings)
      in pre @ filename @ suf @ ext p)"

definition handleFile_target :: "sftp_settings \<Rightarrow> string \<Rightarrow> string \<Rightarrow> string \<Rightarrow> string" where
  "handleFile_target settings connectorName nowDate filePath =
     remoteFolder settings @ ''/'' @ resultingFilename settings connectorName nowDate filePath"


section \<open>The IP filter middleware (server/middlewares/ipFilter.js)\<close>

text \<open>
  \<open>micromatch.isMatch(ip, filter)\<close> (the list \<open>filter\<close> is called \<open>ipfilter\<close>
  below) holds when any pattern of the list matches the string; the matching of one glob
  pattern is the library's and is the parameter \<open>glob\<close>.

  The module neither declares nor imports \<open>logger\<close>: the identifier is bound only if
  the host defines a global of that name. The binding is the parameter \<open>logger\<close>:
  \<open>None\<close> for the module as it is, where evaluating \<open>logger.error(...)\<close> throws a
  \<open>ReferenceError\<close>, and \<open>Some logError\<close> for a host with a global logger, whose
  \<open>error\<close> method acts on a log.

  The middleware either awaits the downstream handler \<open>next\<close>, or it logs and throws
  through \<open>ctx.throw(401, 'access denied ', `${ip} is not authorized`)\<close>, whose
  error keeps the status and the last of the strings as its message. What the middleware
  did is the result: \<open>Downstream r\<close> records that \<open>next\<close> was awaited and gave
  \<open>r\<close>, \<open>HttpError\<close> is the error of \<open>ctx.throw\<close> with its status and message,
  \<open>ReferenceError\<close> the error of the unbound identifier.
\<close>

datatype 'r middleware_result = Downstream 'r | HttpError nat string | ReferenceError string

definition isMatch :: "(string \<Rightarrow> string \<Rightarrow> bool) \<Rightarrow> string \<Rightarrow> string list \<Rightarrow> bool" where
  "isMatch glob str patterns = list_ex (glob str) patterns"

definition ipFilter ::
  "(string \<Rightarrow> string \<Rightarrow> bool) \<Rightarrow> (string \<Rightarrow> 'l \<Rightarrow> 'l) option \<Rightarrow> string list
     \<Rightarrow> (string \<Rightarrow> 'r) \<Rightarrow> string \<Rightarrow> 'l \<Rightarrow> 'r middleware_result \<times> 'l" where
  "ipFilter glob logger ipfilter next ip logged =
     (if isMatch glob ip ipfilter then (Downstream (next ip), logged)
      else (case logger of
              None \<Rightarrow> (ReferenceError ''logger is not defined'', logged)
            | Some logError \<Rightarrow>
                (HttpError 401 (ip @ '' is not authorized''),
                 logError (ip @ '' is not authorized'') logged)))"


section \<open>The MongoDB north connector (north/mongodb/MongoDB.class.js)\<close>

text \<open>
  What \<open>makeRequest\<close> does with one entry depends on the configured regular
  expression and on the \<open>vsprintf\<close> templates: the regular expression does not match
  (\<open>groups\<close> is \<open>null\<close> and \<open>groups.shift()\<close> throws), or it gives too few groups
  (the entry is logged and left out), or the entry becomes the text of one document.
  In the last two cases \<open>collectionValue\<close> and \<open>indexFieldsValue\<close> have been
  assigned. This step is the parameter \<open>render\<close>; \<open>wellFormed\<close> says which document
  texts \<open>JSON.parse\<close> accepts.
\<close>

datatype api_status = COMMUNICATION_ERROR

record entry =
  pointId :: string
  data :: string

datatype rendered =
    TypeError
  | Skipped string string
  | Document string string string

record mongo =
  mongoClient :: bool
  listCollections :: "string list option"
  collectionChecked :: bool
  createCollection :: bool
  createdCollections :: "string list"
  inserted :: "(string \<times> string list) list"
  numberOfValuesSent :: nat

text \<open>
  The \<open>entries.forEach\<close> loop: \<open>body\<close> (the document texts, in order),
  \<open>collectionValue\<close> and \<open>indexFieldsValue\<close>; \<open>None\<close> when an entry throws.
\<close>

fun forEachEntry ::
  "(entry \<Rightarrow> rendered) \<Rightarrow> entry list \<Rightarrow> string list \<times> string \<times> string
     \<Rightarrow> (string list \<times> string \<times> string) option" where
  "forEachEntry render [] acc = Some acc"
| "forEachEntry render (e # es) (body, collectionValue, indexFieldsValue) =
     (case render e of
        TypeError \<Rightarrow> None
      | Skipped c i \<Rightarrow> forEachEntry render es (body, c, i)
      | Document c i d \<Rightarrow> forEachEntry render es (body @ [d], c, i))"

text \<open>
  \<open>ensureCollectionExists\<close>: creates the collection when the list read at connection
  does not have it, then sets \<open>collectionChecked\<close>. Errors of the creation itself go to
  its callback and are logged only. \<open>None\<close>: a \<open>TypeError\<close> on an unset field.
\<close>

definition ensureCollectionExists :: "string \<Rightarrow> mongo \<Rightarrow> mongo option" where
  "ensureCollectionExists collection s =
     (case listCollections s of
        None \<Rightarrow> None
      | Some names \<Rightarrow>
          if collection \<notin> set names
          then (if mongoClient s
                then Some (s\<lparr>createdCollections := createdCollections s @ [collection],
                            collectionChecked := True\<rparr>)
                else None)
          else Some (s\<lparr>collectionChecked := True\<rparr>))"

text \<open>\<open>makeRequest\<close>: \<open>None\<close> when it throws, the connector after it otherwise.\<close>

definition makeRequest ::
  "(entry \<Rightarrow> rendered) \<Rightarrow> (string \<Rightarrow> bool) \<Rightarrow> entry list \<Rightarrow> mongo \<Rightarrow> mongo option" where
  "makeRequest render wellFormed entries s =
     (case forEachEntry render entries ([], [], []) of
        None \<Rightarrow> None
      | Some (body, collectionValue, indexFieldsValue) \<Rightarrow>
          if \<not> collectionChecked s
          then (if createCollection s then ensureCollectionExists collectionValue s
                else Some s)
          else if \<not> list_all wellFormed body then None
          else if \<not> mongoClient s then None
          else Some (s\<lparr>inserted := inserted s @ [(collectionValue, body)]\<rparr>))"

text \<open>
  \<open>handleValues\<close>: the count of values on success, \<open>COMMUNICATION_ERROR\<close> when
  anything in the \<open>try\<close> block throws (reading \<open>values[values.length - 1].pointId\<close>
  of an empty batch does).
\<close>

definition handleValues ::
  "(entry \<Rightarrow> rendered) \<Rightarrow> (string \<Rightarrow> bool) \<Rightarrow> entry list \<Rightarrow> mongo
     \<Rightarrow> (api_status + nat) \<times> mongo" where
  "handleValues render wellFormed values s =
     (case makeRequest render wellFormed values s of
        None \<Rightarrow> (Inl COMMUNICATION_ERROR, s)
      | Some s' \<Rightarrow>
          (let s'' = s'\<lparr>numberOfValuesSent := numberOfValuesSent s' + length values\<rparr>
           in if values = [] then (Inl COMMUNICATION_ERROR, s'')
              else (Inr (length values), s'')))"

text \<open>The documents that reached the database: those of every \<open>insertMany\<close> call.\<close>

definition delivered :: "mongo \<Rightarrow> string list" where
  "delivered s = concat (map snd (inserted s))"


section \<open>Testing an SFTP connection (north/north-sftp/north-sftp.ts)\<close>

text \<open>
  The remote side as \<open>testConnection\<close> meets it: whether building the connection
  options fails (reading the private key, decrypting), whether \<open>client.connect\<close>
  fails, what \<open>client.exists\<close> gives (a thrown message, or \<open>false\<close>, \<open>'d'\<close>,
  \<open>'-'\<close>, \<open>'l'\<close>), and whether \<open>client.end\<close> fails.
\<close>

datatype exists_result = NotExists | IsDirectory | IsFile | IsLink

record sftp_server =
  optionsFailure :: "string option"
  connectFailure :: "string option"
  existsOutcome :: "string + exists_result"
  endFailure :: "string option"

datatype sftp_error =
    OptionsError string
  | AccessError string
  | DoesNotExist
  | NotAFolder

text \<open>
  \<open>testConnection\<close> is given the connector's own state \<open>c\<close> and the number of probe
  connections open at the server, and returns both with its result. A successful
  \<open>client.connect\<close> opens one connection, a successful \<open>client.end\<close> closes it.
\<close>

definition testConnection ::
  "sftp_server \<Rightarrow> 'c \<Rightarrow> nat \<Rightarrow> (sftp_error + unit) \<times> 'c \<times> nat" where
  "testConnection server c openConnections =
     (case optionsFailure server of
        Some m \<Rightarrow> (Inl (OptionsError m), c, openConnections)
      | None \<Rightarrow>
         (case connectFailure server of
            Some m \<Rightarrow> (Inl (AccessError m), c, openConnections)
          | None \<Rightarrow>
             (case existsOutcome server of
                Inl m \<Rightarrow> (Inl (AccessError m), c, openConnections + 1)
              | Inr folderExists \<Rightarrow>
                 (case endFailure server of
                    Some m \<Rightarrow> (Inl (AccessError m), c, openConnections + 1)
                  | None \<Rightarrow>
                     (if folderExists = NotExists then (Inl DoesNotExist, c, openConnections)
                      else if folderExists \<noteq> IsDirectory then (Inl NotAFolder, c, openConnections)
                      else (Inr (), c, openConnections))))))"


section \<open>The OPCHDA south connector (south-opchda.ts)\<close>

text \<open>
  An \<open>Instant\<close> is an ISO-8601 string; the source reads it through
  \<open>DateTime.fromISO(...).toMillis()\<close> and writes it through
  \<open>DateTime.fromMillis(...).toUTC().toISO()\<close>. It is the number of milliseconds here.
  A timer handle is what \<open>setTimeout\<close> returns.
\<close>

type_synonym instant = int
type_synonym timer = nat

text \<open>
  The callbacks the connector hands to \<open>setTimeout\<close>: \<open>this.connect\<close>,
  \<open>this.agent.sendConnectMessage\<close>, and the function of \<open>historyQuery\<close> that
  rejects the pending read.
\<close>

datatype callback = Connect | SendConnectMessage | RejectHistoryRead

text \<open>
  The errors a history read is rejected with, with what their messages carry:
  the agent's own error text; \<open>Missing points entry in response for group "g"\<close>;
  \<open>Group "g" not found\<close>; \<open>History query has not succeeded in the requested
  readTimeout: ns\<close>.
\<close>

datatype error =
    AgentError string
  | MissingPoints string
  | GroupNotFound string
  | ReadTimeout nat

text \<open>
  Modelled from the spec: \<open>DeferredPromise\<close> (service/deferred-promise) is not among
  the sources. It is a promise whose \<open>resolve\<close> and \<open>reject\<close> are held by the
  connector: outstanding until it is resolved with a value or rejected with an error.
\<close>

datatype deferred = Pending | Resolved int | Rejected error

text \<open>
  Modelled from the spec: \<open>DeferredPromise.resolve\<close>, as called through
  \<open>this.historyRead$?.resolve(v)\<close>. Nothing happens when the field is \<open>null\<close>; a
  promise is settled once, so resolving a settled promise changes nothing.
\<close>

definition resolve :: "int \<Rightarrow> deferred option \<Rightarrow> deferred option" where
  "resolve v d = (case d of Some Pending \<Rightarrow> Some (Resolved v) | _ \<Rightarrow> d)"

text \<open>
  Modelled from the spec: \<open>DeferredPromise.reject\<close>, as called through
  \<open>this.historyRead$?.reject(e)\<close>, under the same two rules.
\<close>

definition reject :: "error \<Rightarrow> deferred option \<Rightarrow> deferred option" where
  "reject e d = (case d of Some Pending \<Rightarrow> Some (Rejected e) | _ \<Rightarrow> d)"

text \<open>
  The message of the agent: \<open>messageObject.Content\<close> and its points. Of a point,
  \<open>Value\<close> holds the text that \<open>point.Value.toString()\<close> gives and \<open>Quality\<close>
  the text that \<open>JSON.stringify(point.Quality)\<close> gives, which are what the connector
  reads of them.
\<close>

record point =
  ItemId :: string
  Timestamp :: "instant option"
  Value :: "string option"
  Quality :: string

record content =
  Error :: "string option"
  Disconnected :: bool
  Points :: "point list option"
  Group :: string

record group_point =
  pointName :: string
  nodeId :: string

record item_group =
  aggregate :: string
  resampling :: string
  scanMode :: string
  points :: "group_point list"

record oibus_value =
  valuePointId :: string
  valueTimestamp :: instant
  dataValue :: string
  dataQuality :: string

record opchda_settings =
  readTimeout :: nat
  retryInterval :: nat

text \<open>
  The connector: its four fields initialised at connection, \<open>itemsByGroups\<close> (a
  \<open>Map\<close>, in insertion order), and around it what its calls act on: the timers
  pending in the event loop with the next handle \<open>setTimeout\<close> gives out, the
  read requests sent to the agent, the batches given to \<open>addValues\<close>, and how many
  times a timer has started a reconnection.
\<close>

record south =
  reconnectTimeout :: "timer option"
  historyReadTimeout :: "timer option"
  historyRead :: "deferred option"
  itemsByGroups :: "(string \<times> item_group) list"
  timers :: "(timer \<times> callback) list"
  nextTimer :: timer
  agentConnected :: bool
  connected :: bool
  readMessages :: "(string \<times> instant \<times> instant) list"
  addedValues :: "oibus_value list list"
  reconnections :: nat

definition setTimeout :: "callback \<Rightarrow> south \<Rightarrow> timer \<times> south" where
  "setTimeout cb s =
     (nextTimer s, s\<lparr>timers := timers s @ [(nextTimer s, cb)], nextTimer := Suc (nextTimer s)\<rparr>)"

definition clearTimeout :: "timer \<Rightarrow> south \<Rightarrow> south" where
  "clearTimeout t s = s\<lparr>timers := filter (\<lambda>(i, cb). i \<noteq> t) (timers s)\<rparr>"

text \<open>
  Modelled from the spec: \<open>Agent.disconnect\<close> (agent.ts) is not among the sources.
  By the connection lifecycle of the spec, disconnecting tears down whatever handle
  exists and is a no-op, not an error, when there is none: the agent is not connected
  afterwards.
\<close>

definition agent_disconnect :: "south \<Rightarrow> south" where
  "agent_disconnect s = s\<lparr>agentConnected := False\<rparr>"

text \<open>
  Modelled from the spec: \<open>SouthConnector.disconnect\<close> (south-connector.ts) is not
  among the sources. By the same lifecycle, the connector is disconnected afterwards.
\<close>

definition super_disconnect :: "south \<Rightarrow> south" where
  "super_disconnect s = s\<lparr>connected := False\<rparr>"

text \<open>\<open>disconnect\<close>: clears both timers when their fields are set, then tears down.\<close>

definition disconnect :: "south \<Rightarrow> south" where
  "disconnect s =
     (let s1 = (case reconnectTimeout s of Some t \<Rightarrow> clearTimeout t s | None \<Rightarrow> s);
          s2 = (case historyReadTimeout s1 of Some t \<Rightarrow> clearTimeout t s1 | None \<Rightarrow> s1)
      in super_disconnect (agent_disconnect s2))"

text \<open>
  \<open>handleConnectMessage\<close> when the agent reports that it could not connect:
  the agent is disconnected and a reconnection is scheduled.
\<close>

definition handleConnectMessage_notConnected :: "south \<Rightarrow> south" where
  "handleConnectMessage_notConnected s =
     (let (t, s1) = setTimeout Connect (agent_disconnect s)
      in s1\<lparr>reconnectTimeout := Some t\<rparr>)"

text \<open>
  \<open>handleReadMessage\<close>. A point is kept when both its \<open>Timestamp\<close> and its \<open>Value\<close>
  are defined; \<open>maxTimestamp\<close> starts at 0 and is raised by each kept point.
\<close>

definition validPoint :: "point \<Rightarrow> bool" where
  "validPoint p = (Timestamp p \<noteq> None \<and> Value p \<noteq> None)"

definition toMillis :: "point \<Rightarrow> instant" where
  "toMillis p = (case Timestamp p of Some t \<Rightarrow> t | None \<Rightarrow> 0)"

definition associatedPointId :: "item_group \<Rightarrow> point \<Rightarrow> string" where
  "associatedPointId g p =
     (case find (\<lambda>scanGroupPoint. nodeId scanGroupPoint = ItemId p) (points g) of
        Some scanGroupPoint \<Rightarrow>
          (if pointName scanGroupPoint \<noteq> [] then pointName scanGroupPoint else ItemId p)
      | None \<Rightarrow> ItemId p)"

definition toValue :: "item_group \<Rightarrow> point \<Rightarrow> oibus_value" where
  "toValue g p =
     \<lparr>valuePointId = associatedPointId g p,
      valueTimestamp = toMillis p,
      dataValue = (case Value p of Some v \<Rightarrow> v | None \<Rightarrow> []),
      dataQuality = Quality p\<rparr>"

definition maxTimestampOf :: "point list \<Rightarrow> instant" where
  "maxTimestampOf ps =
     foldl (\<lambda>maxTimestamp p. if toMillis p > maxTimestamp then toMillis p else maxTimestamp)
       0 (filter validPoint ps)"

definition handleReadMessage :: "opchda_settings \<Rightarrow> content \<Rightarrow> south \<Rightarrow> south" where
  "handleReadMessage cfg c s =
     (case Error c of
        Some (e # es) \<Rightarrow>
          (let s1 = (if Disconnected c
                     then (let (t, s') = setTimeout SendConnectMessage (disconnect s)
                           in s'\<lparr>reconnectTimeout := Some t\<rparr>)
                     else s)
           in s1\<lparr>historyRead := reject (AgentError (e # es)) (historyRead s1)\<rparr>)
      | _ \<Rightarrow>
          (case Points c of
             None \<Rightarrow> s\<lparr>historyRead := reject (MissingPoints (Group c)) (historyRead s)\<rparr>
           | Some [] \<Rightarrow> s\<lparr>historyRead := resolve 0 (historyRead s)\<rparr>
           | Some ps \<Rightarrow>
               (case map_of (itemsByGroups s) (Group c) of
                  None \<Rightarrow> s\<lparr>historyRead := reject (GroupNotFound (Group c)) (historyRead s)\<rparr>
                | Some associatedGroup \<Rightarrow>
                    (let values = map (toValue associatedGroup) (filter validPoint ps);
                         s1 = s\<lparr>addedValues := addedValues s @ [values]\<rparr>
                     in s1\<lparr>historyRead := resolve (maxTimestampOf ps + 1) (historyRead s1)\<rparr>))))"

text \<open>
  The other calls the connector makes outside its own class, \<open>agent.sendReadMessage\<close>
  and \<open>addValues\<close>, are recorded with their arguments and return normally.

  What can happen while \<open>historyQuery\<close> awaits the read: a read message of the agent
  is handled, or a timer fires. A timer that has been cleared does not fire. The callback
  of the read timeout rejects the read held by the connector at that moment; the two
  reconnection callbacks start a reconnection, which is only counted here.
\<close>

datatype event = ReadMessage content | TimerFires timer

definition fireTimer :: "opchda_settings \<Rightarrow> timer \<Rightarrow> south \<Rightarrow> south" where
  "fireTimer cfg t s =
     (case map_of (timers s) t of
        None \<Rightarrow> s
      | Some cb \<Rightarrow>
          (let s1 = clearTimeout t s
           in case cb of
                RejectHistoryRead \<Rightarrow>
                  s1\<lparr>historyRead := reject (ReadTimeout (readTimeout cfg)) (historyRead s1)\<rparr>
              | Connect \<Rightarrow> s1\<lparr>reconnections := Suc (reconnections s1)\<rparr>
              | SendConnectMessage \<Rightarrow> s1\<lparr>reconnections := Suc (reconnections s1)\<rparr>))"

definition deliver :: "opchda_settings \<Rightarrow> event \<Rightarrow> south \<Rightarrow> south" where
  "deliver cfg ev s =
     (case ev of ReadMessage c \<Rightarrow> handleReadMessage cfg c s | TimerFires t \<Rightarrow> fireTimer cfg t s)"

text \<open>
  \<open>await this.historyRead$.promise\<close>: events are delivered until the read is settled.
  When the events end with the read outstanding, the \<open>await\<close> has not returned.
\<close>

fun awaitHistoryRead :: "opchda_settings \<Rightarrow> event list \<Rightarrow> south \<Rightarrow> deferred option \<times> south" where
  "awaitHistoryRead cfg [] s = (historyRead s, s)"
| "awaitHistoryRead cfg (ev # evs) s =
     (if historyRead s = Some Pending then awaitHistoryRead cfg evs (deliver cfg ev s)
      else (historyRead s, s))"

text \<open>
  \<open>historyQuery\<close> up to its \<open>await\<close>: a new read, one read message to the agent for
  each group, and the read timeout.
\<close>

definition sendReadMessages :: "instant \<Rightarrow> instant \<Rightarrow> south \<Rightarrow> south" where
  "sendReadMessages startT endT s =
     s\<lparr>readMessages := readMessages s
          @ map (\<lambda>groupName. (groupName, startT, endT)) (map fst (itemsByGroups s))\<rparr>"

definition historyQuery_begin :: "instant \<Rightarrow> instant \<Rightarrow> south \<Rightarrow> south" where
  "historyQuery_begin startT endT s =
     (let s1 = s\<lparr>historyRead := Some Pending\<rparr>;
          s2 = sendReadMessages startT endT s1;
          (t, s3) = setTimeout RejectHistoryRead s2
      in s3\<lparr>historyReadTimeout := Some t\<rparr>)"

text \<open>
  The outcome of the asynchronous \<open>historyQuery\<close>: the instant it resolves with, the
  error it rejects with, or no return while the read is outstanding.
\<close>

datatype outcome = Returns instant | Throws error | Outstanding

definition historyQuery ::
  "opchda_settings \<Rightarrow> instant \<Rightarrow> instant \<Rightarrow> event list \<Rightarrow> south \<Rightarrow> outcome \<times> south" where
  "historyQuery cfg startT endT evs s =
     (let (settled, s1) = awaitHistoryRead cfg evs (historyQuery_begin startT endT s)
      in case settled of
           Some (Resolved retrievedTimestamp) \<Rightarrow>
             (let maxTimestamp =
                    (if retrievedTimestamp > startT then retrievedTimestamp else startT);
                  s2 = (case historyReadTimeout s1 of
                          Some t \<Rightarrow> clearTimeout t s1 | None \<Rightarrow> s1)
              in (Returns maxTimestamp, s2\<lparr>historyReadTimeout := None\<rparr>))
         | Some (Rejected e) \<Rightarrow> (Throws e, s1)
         | _ \<Rightarrow> (Outstanding, s1))"

text \<open>A connector as constructed: nothing scheduled, nothing connected.\<close>

definition newSouth :: "(string \<times> item_group) list \<Rightarrow> south" where
  "newSouth groups =
     \<lparr>reconnectTimeout = None, historyReadTimeout = None, historyRead = None,
      itemsByGroups = groups, timers = [], nextTimer = 0,
      agentConnected = False, connected = False,
      readMessages = [], addedValues = [], reconnections = 0\<rparr>"

text \<open>
  A disconnected connector: neither the agent nor the connector is connected, and no
  timer held in its two timer fields is pending.
\<close>

definition pendingTimers :: "south \<Rightarrow> timer set" where
  "pendingTimers s = fst ` set (timers s)"

definition heldTimers :: "south \<Rightarrow> timer set" where
  "heldTimers s = set_option (reconnectTimeout s) \<union> set_option (historyReadTimeout s)"

definition isDisconnected :: "south \<Rightarrow> bool" where
  "isDisconnected s =
     (\<not> agentConnected s \<and> \<not> connected s \<and> heldTimers s \<inter> pendingTimers s = {})"


text \<open>
  The agent reports an error when \<open>Content.Error\<close> is truthy: present and not the
  empty string.
\<close>

definition reportsError :: "content \<Rightarrow> bool" where
  "reportsError c = (case Error c of Some (e # es) \<Rightarrow> True | _ \<Rightarrow> False)"

text \<open>The timestamps observed in a reply: those of the points that are kept.\<close>

definition observedTimestamps :: "point list \<Rightarrow> instant set" where
  "observedTimestamps ps = toMillis ` set (filter validPoint ps)"


section \<open>Concrete configurations\<close>

text \<open>
  One group with one item, a connector built on it, the same connector once connected,
  and messages of the agent, for running the definitions above on concrete inputs.
\<close>

definition exampleGroup :: item_group where
  "exampleGroup =
     \<lparr>aggregate = ''raw'', resampling = ''none'', scanMode = ''scanMode1'',
      points = [\<lparr>pointName = ''item1'', nodeId = ''ns=1;s=Temperature''\<rparr>]\<rparr>"

definition exampleSouth :: south where
  "exampleSouth = newSouth [(''scanMode1-raw-none'', exampleGroup)]"

definition connectedSouth :: south where
  "connectedSouth = exampleSouth\<lparr>agentConnected := True, connected := True\<rparr>"

definition exampleSettings :: opchda_settings where
  "exampleSettings = \<lparr>readTimeout = 60, retryInterval = 10000\<rparr>"

definition examplePoint :: "instant \<Rightarrow> point" where
  "examplePoint t =
     \<lparr>ItemId = ''ns=1;s=Temperature'', Timestamp = Some t, Value = Some ''21.5'',
      Quality = ''good''\<rparr>"

definition pointsMessage :: "string \<Rightarrow> point list \<Rightarrow> content" where
  "pointsMessage g ps = \<lparr>Error = None, Disconnected = False, Points = Some ps, Group = g\<rparr>"

definition errorMessage :: "string \<Rightarrow> bool \<Rightarrow> content" where
  "errorMessage e d =
     \<lparr>Error = Some e, Disconnected = d, Points = None, Group = ''scanMode1-raw-none''\<rparr>"

definition connectedMongo :: "bool \<Rightarrow> mongo" where
  "connectedMongo create =
     \<lparr>mongoClient = True, listCollections = Some [], collectionChecked = False,
      createCollection = create, createdCollections = [], inserted = [],
      numberOfValuesSent = 0\<rparr>"

definition exampleRender :: "entry \<Rightarrow> rendered" where
  "exampleRender e = Document ''measures'' ''site:A'' (''{'' @ pointId e @ '','' @ data e @ ''}'')"


section \<open>Properties of the rounding\<close>

lemma bits_nonpos: "n \<le> 0 \<Longrightarrow> bits n = 0"
  by (subst bits.simps) simp

lemma bits_Suc: "0 < n \<Longrightarrow> bits n = Suc (bits (n div 2))"
  by (subst bits.simps) simp

lemma bits_bounds: "0 < n \<Longrightarrow> 2 ^ (bits n - 1) \<le> n \<and> n < 2 ^ bits n"
proof (induction n rule: bits.induct)
  case (1 n)
  show ?case
  proof (cases "n div 2 \<le> 0")
    case True
    then have "n = 1" using "1.prems" by presburger
    then show ?thesis by (simp add: bits_Suc bits_nonpos)
  next
    case False
    then have pos: "0 < n div 2" by simp
    have ih: "2 ^ (bits (n div 2) - 1) \<le> n div 2 \<and> n div 2 < 2 ^ bits (n div 2)"
      using "1.IH" "1.prems" pos by simp
    have b: "bits n = Suc (bits (n div 2))"
      using "1.prems" by (rule bits_Suc)
    have "bits (n div 2) = Suc (bits (n div 2 div 2))" using pos by (rule bits_Suc)
    then obtain k where k: "bits (n div 2) = Suc k" by blast
    have lo: "2 * 2 ^ k \<le> n"
      using ih k by simp presburger
    have hi: "n < 2 * 2 ^ Suc k"
      using ih k by simp presburger
    show ?thesis using lo hi by (simp add: b k)
  qed
qed

lemma bits_mono: "m \<le> n \<Longrightarrow> bits m \<le> bits n"
proof (induction n arbitrary: m rule: bits.induct)
  case (1 n)
  show ?case
  proof (cases "m \<le> 0")
    case True
    then show ?thesis by (simp add: bits_nonpos)
  next
    case False
    then have n0: "0 < n" and m0: "0 < m" using "1.prems" by simp_all
    have "m div 2 \<le> n div 2" using "1.prems" by (rule zdiv_mono1) simp
    then have "bits (m div 2) \<le> bits (n div 2)" using "1.IH" n0 by simp
    then show ?thesis
      by (simp add: bits_Suc [OF n0] bits_Suc [OF m0])
  qed
qed


lemma pow2_pos: "0 < pow2 k"
  by (simp add: pow2_def)

lemma pow2_nonneg: "0 \<le> k \<Longrightarrow> pow2 k = of_int (2 ^ nat k)"
  by (simp add: pow2_def)

lemma pow2_Suc: "pow2 (k + 1) = 2 * pow2 k"
proof (cases "0 \<le> k")
  case True
  then have "nat (k + 1) = Suc (nat k)" by simp
  then show ?thesis using True by (simp add: pow2_def)
next
  case False
  then have "nat (- k) = Suc (nat (- (k + 1)))" by simp
  then show ?thesis using False by (auto simp: pow2_def)
qed

lemma pow2_mono: "j \<le> k \<Longrightarrow> pow2 j \<le> pow2 k"
proof -
  have step: "pow2 j \<le> pow2 (j + int d)" for d
  proof (induction d)
    case 0
    show ?case by simp
  next
    case (Suc d)
    have "pow2 (j + int (Suc d)) = 2 * pow2 (j + int d)"
      using pow2_Suc [of "j + int d"] by (simp add: add.assoc add.commute [of 1])
    then show ?case using Suc pow2_pos [of "j + int d"] by simp
  qed
  assume "j \<le> k"
  then have "k = j + int (nat (k - j))" by simp
  then show ?thesis using step [of "nat (k - j)"] by simp
qed

lemma pow2_split: "pow2 e = pow2 (e - 52) * 2 ^ 52"
proof -
  have "pow2 (j + int d) = pow2 j * 2 ^ d" for j d
  proof (induction d)
    case 0
    show ?case by simp
  next
    case (Suc d)
    have "pow2 (j + int (Suc d)) = 2 * pow2 (j + int d)"
      using pow2_Suc [of "j + int d"] by (simp add: add.assoc add.commute [of 1])
    then show ?case using Suc by simp
  qed
  from this [of "e - 52" 52] show ?thesis by simp
qed

lemma exponent_bounds:
  assumes "1 \<le> x"
  shows "0 \<le> exponent x" and "pow2 (exponent x) \<le> x" and "x < pow2 (exponent x + 1)"
proof -
  let ?f = "\<lfloor>x\<rfloor>"
  have f: "0 < ?f" using assms by simp
  have ex: "exponent x = int (bits ?f) - 1"
    using assms by (simp add: exponent_def)
  have bp: "bits ?f = Suc (bits (?f div 2))" using f by (rule bits_Suc)
  then obtain k where k: "bits ?f = Suc k" by blast
  have e: "exponent x = int k" by (simp add: ex k)
  from bits_bounds [OF f] have lo: "2 ^ k \<le> ?f" and hi: "?f < 2 ^ Suc k"
    by (simp_all add: k)
  show "0 \<le> exponent x" by (simp add: e)
  have "(of_int (2 ^ k) :: rat) \<le> of_int ?f" using lo by (simp only: of_int_le_iff)
  also have "\<dots> \<le> x" by simp
  finally show "pow2 (exponent x) \<le> x" by (simp add: e pow2_def)
  have "?f + 1 \<le> 2 ^ Suc k" using hi by simp
  then have "(of_int (?f + 1) :: rat) \<le> of_int (2 ^ Suc k)" by (simp only: of_int_le_iff)
  moreover have "x < of_int (?f + 1)" by linarith
  ultimately have "x < of_int (2 ^ Suc k)" by linarith
  then show "x < pow2 (exponent x + 1)"
    by (simp add: e pow2_def nat_add_distrib)
qed

lemma exponent_mono:
  assumes "1 \<le> x" and "x \<le> y"
  shows "exponent x \<le> exponent y"
proof -
  have "\<lfloor>x\<rfloor> \<le> \<lfloor>y\<rfloor>" using assms(2) by (rule floor_mono)
  then have "bits \<lfloor>x\<rfloor> \<le> bits \<lfloor>y\<rfloor>" by (rule bits_mono)
  then show ?thesis using assms by (simp add: exponent_def)
qed

lemma exponent_minus: "exponent (- x) = exponent x"
  by (simp add: exponent_def)

lemma roundHalfEven_of_int: "roundHalfEven (of_int k) = k"
  by (simp add: roundHalfEven_def)

lemma roundHalfEven_floor: "\<lfloor>y\<rfloor> \<le> roundHalfEven y" and roundHalfEven_ceil: "roundHalfEven y \<le> \<lfloor>y\<rfloor> + 1"
  by (simp_all add: roundHalfEven_def Let_def)

lemma roundHalfEven_ge:
  assumes "of_int c \<le> y"
  shows "c \<le> roundHalfEven y"
proof -
  have "c \<le> \<lfloor>y\<rfloor>" using assms by (simp add: le_floor_iff)
  then show ?thesis using roundHalfEven_floor [of y] by linarith
qed

lemma roundHalfEven_le:
  assumes "y \<le> of_int c"
  shows "roundHalfEven y \<le> c"
proof (cases "y = of_int c")
  case True
  then show ?thesis by (simp add: roundHalfEven_of_int)
next
  case False
  then have "y < of_int c" using assms by simp
  then have "\<lfloor>y\<rfloor> < c" by (simp add: floor_less_iff)
  then show ?thesis using roundHalfEven_ceil [of y] by simp
qed

lemma roundHalfEven_error: "\<bar>of_int (roundHalfEven y) - y\<bar> \<le> 1 / 2"
proof -
  have "of_int \<lfloor>y\<rfloor> \<le> y" "y < of_int \<lfloor>y\<rfloor> + 1" by linarith+
  then show ?thesis
    by (auto simp: roundHalfEven_def Let_def abs_le_iff)
qed

lemma roundHalfEven_mono:
  assumes "y \<le> z"
  shows "roundHalfEven y \<le> roundHalfEven z"
proof (cases "\<lfloor>y\<rfloor> = \<lfloor>z\<rfloor>")
  case True
  then show ?thesis using assms by (auto simp: roundHalfEven_def Let_def)
next
  case False
  moreover have "\<lfloor>y\<rfloor> \<le> \<lfloor>z\<rfloor>" using assms by (rule floor_mono)
  ultimately have "\<lfloor>y\<rfloor> + 1 \<le> \<lfloor>z\<rfloor>" by simp
  then show ?thesis using roundHalfEven_ceil [of y] roundHalfEven_floor [of z] by linarith
qed


lemma exponent_abs: "exponent \<bar>x\<bar> = exponent x"
  by (simp add: exponent_def)

lemma fl_unfold: "x \<noteq> 0 \<Longrightarrow> fl x = of_int (roundHalfEven (x / pow2 (exponent x - 52))) * pow2 (exponent x - 52)"
  by (simp add: fl_def Let_def)

lemma fl_multiple:
  assumes "x = of_int j * pow2 (exponent x - 52)"
  shows "fl x = x"
proof (cases "x = 0")
  case True
  then show ?thesis by (simp add: fl_def)
next
  case False
  let ?u = "pow2 (exponent x - 52)"
  have u: "?u \<noteq> 0" using pow2_pos [of "exponent x - 52"] by simp
  have "x / ?u = of_int j" using assms u by (simp add: field_simps)
  then have r: "roundHalfEven (x / ?u) = j" by (simp only: roundHalfEven_of_int)
  have "fl x = of_int (roundHalfEven (x / ?u)) * ?u" using False by (rule fl_unfold)
  also have "\<dots> = of_int j * ?u" by (simp only: r)
  also have "\<dots> = x" using assms by simp
  finally show ?thesis .
qed

lemma fl_error:
  assumes "x \<noteq> 0"
  shows "\<bar>fl x - x\<bar> \<le> pow2 (exponent x - 52) / 2"
proof -
  let ?u = "pow2 (exponent x - 52)"
  have u: "0 < ?u" by (rule pow2_pos)
  have "fl x - x = (of_int (roundHalfEven (x / ?u)) - x / ?u) * ?u"
    using u assms by (simp add: fl_unfold field_simps)
  then have "\<bar>fl x - x\<bar> = \<bar>of_int (roundHalfEven (x / ?u)) - x / ?u\<bar> * ?u"
    using u by (simp add: abs_mult)
  also have "\<dots> \<le> (1 / 2) * ?u"
    using roundHalfEven_error [of "x / ?u"] u by (intro mult_right_mono) simp_all
  finally show ?thesis by simp
qed

lemma fl_bounds:
  assumes "1 \<le> x"
  shows "pow2 (exponent x) \<le> fl x" and "fl x \<le> pow2 (exponent x + 1)"
proof -
  let ?e = "exponent x"
  let ?u = "pow2 (?e - 52)"
  have u: "0 < ?u" by (rule pow2_pos)
  have x0: "x \<noteq> 0" using assms by simp
  have lo: "pow2 ?e \<le> x" and hi: "x < pow2 (?e + 1)"
    using exponent_bounds [OF assms] by simp_all
  have "of_int (2 ^ 52) * ?u \<le> x" using lo pow2_split [of ?e] by (simp add: mult.commute)
  then have "of_int (2 ^ 52) \<le> x / ?u" using u by (simp add: le_divide_eq)
  then have "2 ^ 52 \<le> roundHalfEven (x / ?u)" by (rule roundHalfEven_ge)
  then have "(of_int (2 ^ 52) :: rat) \<le> of_int (roundHalfEven (x / ?u))"
    by (simp only: of_int_le_iff)
  then have "of_int (2 ^ 52) * ?u \<le> of_int (roundHalfEven (x / ?u)) * ?u"
    using u by (intro mult_right_mono) simp_all
  then show "pow2 ?e \<le> fl x"
    using pow2_split [of ?e] by (simp add: fl_unfold [OF x0] mult.commute)
  have "pow2 (?e + 1) = of_int (2 ^ 53) * ?u"
    using pow2_split [of ?e] by (simp add: pow2_Suc)
  then have "x \<le> of_int (2 ^ 53) * ?u" using hi by simp
  then have "x / ?u \<le> of_int (2 ^ 53)" using u by (simp add: divide_le_eq)
  then have "roundHalfEven (x / ?u) \<le> 2 ^ 53" by (rule roundHalfEven_le)
  then have "(of_int (roundHalfEven (x / ?u)) :: rat) \<le> of_int (2 ^ 53)"
    by (simp only: of_int_le_iff)
  then have "of_int (roundHalfEven (x / ?u)) * ?u \<le> of_int (2 ^ 53) * ?u"
    using u by (intro mult_right_mono) simp_all
  then show "fl x \<le> pow2 (?e + 1)"
    using \<open>pow2 (?e + 1) = of_int (2 ^ 53) * ?u\<close> by (simp add: fl_unfold [OF x0])
qed

lemma fl_mono:
  assumes "1 \<le> x" and "x \<le> y"
  shows "fl x \<le> fl y"
proof (cases "exponent x = exponent y")
  case True
  let ?u = "pow2 (exponent y - 52)"
  have u: "0 < ?u" by (rule pow2_pos)
  have "x / ?u \<le> y / ?u" using assms(2) u by (simp add: divide_right_mono)
  then have "roundHalfEven (x / ?u) \<le> roundHalfEven (y / ?u)" by (rule roundHalfEven_mono)
  then have "(of_int (roundHalfEven (x / ?u)) :: rat) \<le> of_int (roundHalfEven (y / ?u))"
    by (simp only: of_int_le_iff)
  then have "of_int (roundHalfEven (x / ?u)) * ?u \<le> of_int (roundHalfEven (y / ?u)) * ?u"
    using u by (intro mult_right_mono) simp_all
  moreover have "x \<noteq> 0" "y \<noteq> 0" using assms by simp_all
  ultimately show ?thesis by (simp add: fl_unfold True)
next
  case False
  have y1: "1 \<le> y" using assms by simp
  have "exponent x \<le> exponent y" using assms by (rule exponent_mono)
  then have "exponent x + 1 \<le> exponent y" using False by simp
  then have "pow2 (exponent x + 1) \<le> pow2 (exponent y)" by (rule pow2_mono)
  then show ?thesis using fl_bounds(2) [OF assms(1)] fl_bounds(1) [OF y1] by linarith
qed

lemma fl_exact:
  assumes "\<bar>k\<bar> \<le> 2 ^ 53"
  shows "fl (of_int k) = of_int k"
proof (cases "k = 0")
  case True
  then show ?thesis by (simp add: fl_def)
next
  case False
  let ?x = "of_int k :: rat"
  let ?e = "exponent ?x"
  have a1: "1 \<le> \<bar>?x\<bar>" using False by (simp flip: of_int_abs)
  have e0: "0 \<le> ?e" and lo: "pow2 ?e \<le> \<bar>?x\<bar>"
    using exponent_bounds(1,2) [OF a1] by (simp_all add: exponent_abs)
  have ax: "\<bar>?x\<bar> \<le> pow2 53"
  proof -
    have "(of_int \<bar>k\<bar> :: rat) \<le> of_int (2 ^ 53)" using assms by (simp only: of_int_le_iff)
    then show ?thesis by (simp add: pow2_def)
  qed
  have e53: "?e \<le> 53"
  proof (rule ccontr)
    assume "\<not> ?e \<le> 53"
    then have "54 \<le> ?e" by simp
    then have "pow2 54 \<le> pow2 ?e" by (rule pow2_mono)
    then have "pow2 54 \<le> pow2 53" using lo ax by linarith
    then show False by (simp add: pow2_def)
  qed
  show ?thesis
  proof (cases "?e \<le> 52")
    case True
    then have u: "pow2 (?e - 52) = 1 / 2 ^ nat (52 - ?e)"
      by (cases "?e = 52") (simp_all add: pow2_def)
    have "?x = of_int (k * 2 ^ nat (52 - ?e)) * pow2 (?e - 52)"
      by (simp add: u)
    then show ?thesis by (rule fl_multiple)
  next
    case False
    then have e: "?e = 53" using e53 by simp
    have "\<bar>?x\<bar> = pow2 53" using lo ax by (simp add: e)
    then have "\<bar>?x\<bar> = of_int (2 ^ 53)" by (simp add: pow2_def)
    then have "(of_int \<bar>k\<bar> :: rat) = of_int (2 ^ 53)" by simp
    then have "\<bar>k\<bar> = 2 ^ 53" by (simp only: of_int_eq_iff)
    then have "even k" by (metis even_abs_add_iff even_add even_numeral even_power zero_less_numeral)
    then have "k = 2 * (k div 2)" by simp
    then have "?x = of_int (k div 2) * 2" by (metis mult.commute of_int_mult of_int_numeral)
    moreover have "pow2 (?e - 52) = 2" by (simp add: e pow2_def)
    ultimately have "?x = of_int (k div 2) * pow2 (?e - 52)" by (simp only:)
    then show ?thesis by (rule fl_multiple)
  qed
qed

lemma fl_large:
  assumes "2 ^ 53 < k"
  shows "\<exists>j. fl (of_int k) = of_int j \<and> 2 ^ 53 \<le> j"
proof -
  let ?x = "of_int k :: rat"
  let ?e = "exponent ?x"
  have "(of_int (2 ^ 53) :: rat) < of_int k" using assms by (simp only: of_int_less_iff)
  then have big: "pow2 53 < ?x" by (simp add: pow2_def)
  then have x1: "1 \<le> ?x" by (simp add: pow2_def)
  have e53: "53 \<le> ?e"
  proof (rule ccontr)
    assume "\<not> 53 \<le> ?e"
    then have "?e + 1 \<le> 53" by simp
    then have "pow2 (?e + 1) \<le> pow2 53" by (rule pow2_mono)
    then show False using exponent_bounds(3) [OF x1] big by linarith
  qed
  define d where "d = nat (?e - 53)"
  have u: "pow2 (?e - 52) = of_int (2 * 2 ^ d)"
    using e53 by (simp add: pow2_def d_def nat_diff_distrib flip: power_Suc)
  have p53: "pow2 53 \<le> pow2 ?e" using e53 by (rule pow2_mono)
  have "pow2 ?e \<le> fl ?x" by (rule fl_bounds(1) [OF x1])
  then have ge: "of_int (2 ^ 53) \<le> fl ?x" using p53 by (simp add: pow2_def)
  have x0: "?x \<noteq> 0" using x1 by simp
  have "fl ?x = of_int (roundHalfEven (?x / pow2 (?e - 52)) * (2 * 2 ^ d))"
    by (simp only: fl_unfold [OF x0] u of_int_mult)
  moreover from this have "2 ^ 53 \<le> roundHalfEven (?x / pow2 (?e - 52)) * (2 * 2 ^ d)"
    using ge by (simp only: of_int_le_iff)
  ultimately show ?thesis by blast
qed

lemma fl_int_cases:
  assumes "0 \<le> k"
  shows "\<exists>j. fl (of_int k) = of_int j \<and> (j = k \<or> (2 ^ 53 \<le> j \<and> 2 ^ 53 < k))"
proof (cases "k \<le> 2 ^ 53")
  case True
  then have "fl (of_int k) = of_int k" using assms by (intro fl_exact) simp
  then show ?thesis by blast
next
  case False
  then have "2 ^ 53 < k" by simp
  then show ?thesis using fl_large [of k] by blast
qed


section \<open>Properties of \<open>generateIntervals\<close>\<close>

declare intervalLoop.simps [simp del]

lemma intervalLoop_unfold:
  "intervalLoop q s e m i acc = acc @ map (newInterval s e m) [i ..< nat \<lceil>q\<rceil>]"
proof (induction q s e m i acc rule: intervalLoop.induct)
  case (1 q s e m i acc)
  show ?case
  proof (cases "of_nat i < q")
    case True
    then have "int i < \<lceil>q\<rceil>" by (simp add: less_ceiling_iff)
    then have lt: "i < nat \<lceil>q\<rceil>" by linarith
    have "intervalLoop q s e m i acc = intervalLoop q s e m (i + 1) (acc @ [newInterval s e m i])"
      using True by (subst intervalLoop.simps) simp
    also have "\<dots> = (acc @ [newInterval s e m i]) @ map (newInterval s e m) [i + 1 ..< nat \<lceil>q\<rceil>]"
      using "1.IH" [OF True] .
    also have "\<dots> = acc @ map (newInterval s e m) [i ..< nat \<lceil>q\<rceil>]"
      using lt by (simp add: upt_conv_Cons)
    finally show ?thesis .
  next
    case False
    then have "\<not> int i < \<lceil>q\<rceil>" by (simp add: less_ceiling_iff)
    then have "nat \<lceil>q\<rceil> \<le> i" by linarith
    then show ?thesis using False by (subst intervalLoop.simps) simp
  qed
qed

lemma ceiling_quotient_bounds:
  fixes D K :: int
  assumes K: "0 < K"
  defines "c \<equiv> \<lceil>(of_int D :: rat) / of_int K\<rceil>"
  shows "(c - 1) * K < D" and "D \<le> c * K"
proof -
  have c: "c = - ((- D) div K)"
    unfolding c_def by (rule ceiling_divide_eq_div)
  define q where "q = (- D) div K"
  have eq: "q * K + (- D) mod K = - D"
    unfolding q_def by (rule div_mult_mod_eq)
  have r: "0 \<le> (- D) mod K" "(- D) mod K < K"
    using K by simp_all
  have ck: "c * K = - (q * K)" "(c - 1) * K = - (q * K) - K"
    unfolding c q_def by (simp_all add: algebra_simps)
  show "D \<le> c * K" using eq r ck by linarith
  show "(c - 1) * K < D" using eq r ck by linarith
qed

lemma intervalCount_bounds:
  assumes m: "maxInterval > 0" and d: "endT - startT > 1000 * maxInterval"
  shows "(int (intervalCount startT endT maxInterval) - 1) * (1000 * maxInterval) < endT - startT"
    and "endT - startT \<le> int (intervalCount startT endT maxInterval) * (1000 * maxInterval)"
    and "2 \<le> intervalCount startT endT maxInterval"
proof -
  define K where "K = maxInterval * 1000"
  define D where "D = endT - startT"
  define c where "c = \<lceil>(of_int D :: rat) / of_int K\<rceil>"
  have K: "0 < K" using m by (simp add: K_def)
  have DK: "K < D" using d by (simp add: K_def D_def)
  have lo: "(c - 1) * K < D" and hi: "D \<le> c * K"
    unfolding c_def using ceiling_quotient_bounds [OF K, of D] by simp_all
  have "1 * K < c * K" using DK hi by simp
  then have "1 < c" using K by (simp only: mult_less_cancel_right)
  then have c2: "2 \<le> c" by simp
  have n: "int (intervalCount startT endT maxInterval) = c"
    using c2 by (simp add: intervalCount_def c_def D_def K_def)
  show "(int (intervalCount startT endT maxInterval) - 1) * (1000 * maxInterval) < endT - startT"
    using lo unfolding n K_def D_def by (simp add: mult.commute)
  show "endT - startT \<le> int (intervalCount startT endT maxInterval) * (1000 * maxInterval)"
    using hi unfolding n K_def D_def by (simp add: mult.commute)
  show "2 \<le> intervalCount startT endT maxInterval" using c2 n by linarith
qed


lemma fl_quotient:
  fixes D K :: int
  assumes K: "0 < K" and KD: "K < D" and D: "D \<le> 2 ^ 53"
  defines "q \<equiv> (of_int D :: rat) / of_int K"
  shows "of_int \<lceil>q\<rceil> - 1 < fl q" and "fl q \<le> of_int \<lceil>q\<rceil>"
proof -
  define n where "n = \<lceil>q\<rceil>"
  have Kr: "(0::rat) < of_int K" using K by (simp only: of_int_0_less_iff)
  have lo: "(n - 1) * K < D" and hi: "D \<le> n * K"
    unfolding n_def q_def using ceiling_quotient_bounds [OF K, of D] by simp_all
  have q1: "1 \<le> q"
    unfolding q_def using KD Kr by (simp add: le_divide_eq)
  have qD: "q \<le> of_int D"
  proof -
    have "(1::rat) \<le> of_int K" using K by simp
    moreover have "(0::rat) \<le> of_int D" using K KD by simp
    ultimately have "(of_int D :: rat) * 1 \<le> of_int D * of_int K" by (intro mult_left_mono)
    then show ?thesis unfolding q_def using Kr by (simp add: divide_le_eq)
  qed
  have both: "of_int n - 1 < fl q \<and> fl q \<le> of_int n"
  proof (cases "q = of_int n")
    case True
    have "(of_int n :: rat) \<le> of_int D" using qD True by simp
    then have "n \<le> D" by (simp only: of_int_le_iff)
    moreover have "(0::rat) \<le> of_int n" using q1 True by simp
    then have "0 \<le> n" by (simp only: of_int_0_le_iff)
    ultimately have "\<bar>n\<bar> \<le> 2 ^ 53" using D by simp
    then have "fl (of_int n) = of_int n" by (rule fl_exact)
    then show ?thesis by (simp add: True)
  next
    case False
    have "q \<le> of_int n" unfolding n_def by (rule le_of_int_ceiling)
    then have qn: "q < of_int n" using False by simp
    have "D \<noteq> n * K"
    proof
      assume "D = n * K"
      then have "q = of_int n" unfolding q_def using Kr by simp
      then show False using False by simp
    qed
    then have hi1: "D + 1 \<le> n * K" using hi by simp
    have lo1: "(n - 1) * K + 1 \<le> D" using lo by simp
    have qK: "q * of_int K = of_int D" unfolding q_def using Kr by simp
    have "(of_int (D + 1) :: rat) \<le> of_int (n * K)" using hi1 by (simp only: of_int_le_iff)
    then have "q * of_int K + 1 \<le> of_int n * of_int K" by (simp add: qK)
    then have "(q + 1 / of_int K) * of_int K \<le> of_int n * of_int K"
      using Kr by (simp add: distrib_right)
    then have up: "q + 1 / of_int K \<le> of_int n" using Kr by (simp only: mult_le_cancel_right)
    have "(of_int ((n - 1) * K + 1) :: rat) \<le> of_int D" using lo1 by (simp only: of_int_le_iff)
    then have "(of_int n - 1) * of_int K + 1 \<le> q * of_int K" by (simp add: qK)
    then have "(of_int n - 1 + 1 / of_int K) * of_int K \<le> q * of_int K"
      using Kr by (simp add: distrib_right)
    then have down: "of_int n - 1 + 1 / of_int K \<le> q"
      using Kr by (simp only: mult_le_cancel_right)
    let ?e = "exponent q"
    have e0: "0 \<le> ?e" and pe: "pow2 ?e \<le> q" using exponent_bounds [OF q1] by simp_all
    have "pow2 ?e \<noteq> q"
    proof
      assume eq: "pow2 ?e = q"
      then have "q = of_int (2 ^ nat ?e)" using e0 by (simp add: pow2_def)
      then have "q = of_int \<lceil>q\<rceil>" by (metis ceiling_of_int)
      then show False using False by (simp add: n_def)
    qed
    then have pe': "pow2 ?e < q" using pe by simp
    have q0: "q \<noteq> 0" using q1 by simp
    have "pow2 (?e - 52) / 2 = pow2 ?e / 2 ^ 53"
      using pow2_split [of ?e] by simp
    also have "\<dots> < q / 2 ^ 53" using pe' by (simp add: divide_strict_right_mono)
    also have "\<dots> \<le> 1 / of_int K"
    proof -
      have "(of_int D :: rat) \<le> of_int (2 ^ 53)" using D by (simp only: of_int_le_iff)
      then have "q * of_int K \<le> 2 ^ 53" by (simp add: qK)
      then show ?thesis using Kr by (simp add: field_simps)
    qed
    finally have "pow2 (?e - 52) / 2 < 1 / of_int K" .
    then have "\<bar>fl q - q\<bar> < 1 / of_int K" using fl_error [OF q0] by linarith
    then show ?thesis using up down by linarith
  qed
  show "of_int \<lceil>q\<rceil> - 1 < fl q" and "fl q \<le> of_int \<lceil>q\<rceil>"
    using both by (simp_all add: n_def)
qed


lemma newDate_of_int: "validDate k \<Longrightarrow> newDate (of_int k) = Some k"
proof -
  assume v: "validDate k"
  have "\<bar>of_int k :: rat\<bar> = of_int \<bar>k\<bar>" by simp
  also have "\<dots> \<le> of_int 8640000000000000"
    using v unfolding validDate_def by (simp only: of_int_le_iff)
  finally have "\<not> \<bar>of_int k :: rat\<bar> > 8640000000000000" by simp
  then show ?thesis by (simp add: newDate_def)
qed

lemma not_earlier_newDate: "endT \<le> j \<Longrightarrow> \<not> earlier (newDate (of_int j)) endT"
  by (simp add: newDate_def earlier_def)

lemma validDate_fl:
  assumes "validDate k"
  shows "fl (of_int k) = of_int k"
proof -
  have "\<bar>k\<bar> \<le> 2 ^ 53" using assms by (simp add: validDate_def)
  then show ?thesis by (rule fl_exact)
qed

lemma validDate_between: "validDate a \<Longrightarrow> validDate b \<Longrightarrow> a \<le> k \<Longrightarrow> k \<le> b \<Longrightarrow> validDate k"
  by (simp add: validDate_def)

text \<open>The offset of a boundary inside the window is computed exactly.\<close>

lemma offset_exact:
  assumes m: "0 < maxInterval" and j0: "0 \<le> j"
    and le: "j * (1000 * maxInterval) \<le> 2 ^ 53"
  shows "fl (fl (of_int j * 1000) * of_int maxInterval) = of_int (j * (1000 * maxInterval))"
proof -
  have "j * 1000 * 1 \<le> j * 1000 * maxInterval"
    using m j0 by (intro mult_left_mono) simp_all
  then have a: "\<bar>j * 1000\<bar> \<le> 2 ^ 53" using le j0 by (simp add: mult.assoc)
  have "fl (of_int j * 1000) = fl (of_int (j * 1000))" by simp
  also have "\<dots> = of_int (j * 1000)" using a by (rule fl_exact)
  finally have 1: "fl (of_int j * 1000) = of_int (j * 1000)" .
  have "0 \<le> j * (1000 * maxInterval)" using m j0 by simp
  then have b: "\<bar>j * (1000 * maxInterval)\<bar> \<le> 2 ^ 53" using le by simp
  have "fl (of_int (j * 1000) * of_int maxInterval) = fl (of_int (j * (1000 * maxInterval)))"
    by (simp add: mult.assoc)
  also have "\<dots> = of_int (j * (1000 * maxInterval))" using b by (rule fl_exact)
  finally show ?thesis by (simp only: 1)
qed

text \<open>A boundary at or beyond the end of the window is not computed below the end.\<close>

lemma offset_beyond:
  assumes m: "0 < maxInterval" and j0: "0 \<le> j" and D: "D \<le> 2 ^ 53"
    and ge: "D \<le> j * (1000 * maxInterval)"
  shows "\<exists>b. fl (fl (of_int j * 1000) * of_int maxInterval) = of_int b \<and> D \<le> b"
proof -
  have "0 \<le> j * 1000" using j0 by simp
  from fl_int_cases [OF this] obtain a where
    a: "fl (of_int (j * 1000)) = of_int a" and ac: "a = j * 1000 \<or> 2 ^ 53 \<le> a" by blast
  have am: "D \<le> a * maxInterval"
  proof (cases "a = j * 1000")
    case True
    then show ?thesis using ge by (simp add: mult.assoc)
  next
    case False
    then have big: "2 ^ 53 \<le> a" using ac by simp
    then have "a * 1 \<le> a * maxInterval" using m by (intro mult_left_mono) simp_all
    then have "a \<le> a * maxInterval" by (simp only: mult_1_right)
    then show ?thesis using D big by linarith
  qed
  have "0 \<le> a * maxInterval"
  proof -
    have "0 \<le> a" using ac j0 by (cases "a = j * 1000") simp_all
    then show ?thesis using m by simp
  qed
  from fl_int_cases [OF this] obtain b where
    b: "fl (of_int (a * maxInterval)) = of_int b"
    and bc: "b = a * maxInterval \<or> 2 ^ 53 \<le> b" by blast
  have "D \<le> b" using bc am D by (cases "b = a * maxInterval") simp_all
  moreover have "fl (fl (of_int j * 1000) * of_int maxInterval) = of_int b"
  proof -
    have "fl (of_int j * 1000) = of_int a" using a by simp
    then show ?thesis using b by simp
  qed
  ultimately show ?thesis by blast
qed

lemma sum_beyond:
  assumes e: "validDate endT" and ge: "endT \<le> s + b"
  shows "\<exists>v. fl (of_int s + of_int b) = of_int v \<and> endT \<le> v"
proof (cases "\<bar>s + b\<bar> \<le> 2 ^ 53")
  case True
  then have "fl (of_int (s + b)) = of_int (s + b)" by (rule fl_exact)
  then have "fl (of_int s + of_int b) = of_int (s + b)" by simp
  then show ?thesis using ge by blast
next
  case False
  have "- (2 ^ 53) \<le> endT" using e by (simp add: validDate_def)
  then have "2 ^ 53 < s + b" using False ge by simp
  from fl_large [OF this] obtain v where v: "fl (of_int (s + b)) = of_int v" "2 ^ 53 \<le> v" by blast
  have "fl (of_int s + of_int b) = of_int v" using v(1) by simp
  moreover have "endT \<le> 2 ^ 53" using e by (simp add: validDate_def)
  then have "endT \<le> v" using v(2) by linarith
  ultimately show ?thesis by blast
qed

lemma newInterval_exact:
  assumes s: "validDate startT" and e: "validDate endT" and m: "0 < maxInterval"
    and d: "1000 * maxInterval < endT - startT" and D: "endT - startT \<le> 2 ^ 53"
    and i: "i < intervalCount startT endT maxInterval"
  shows "newInterval startT endT maxInterval i = exactInterval startT endT maxInterval i"
proof -
  define K where "K = 1000 * maxInterval"
  define n where "n = int (intervalCount startT endT maxInterval)"
  have K: "0 < K" using m by (simp add: K_def)
  have lo: "(n - 1) * K < endT - startT" and hi: "endT - startT \<le> n * K"
    unfolding n_def K_def using intervalCount_bounds [OF m d] by simp_all
  have i0: "0 \<le> int i" and iN: "int i \<le> n - 1" using i by (simp_all add: n_def)
  have iK: "int i * K \<le> (n - 1) * K" using iN K by (intro mult_right_mono) simp_all
  \<comment> \<open>the start of the interval\<close>
  have "int i * K \<le> 2 ^ 53" using iK lo D by linarith
  then have off: "fl (fl (of_int (int i) * 1000) * of_int maxInterval) = of_int (int i * K)"
    unfolding K_def using m i0 by (intro offset_exact) simp_all
  have s1: "startT \<le> startT + int i * K" using i0 K by simp
  have s2: "startT + int i * K \<le> endT" using iK lo by linarith
  have vs: "validDate (startT + int i * K)"
    by (rule validDate_between [OF s e s1 s2])
  have off_nat: "fl (fl (of_nat i * 1000) * of_int maxInterval) = of_int (int i * K)"
    using off by (simp only: of_int_of_nat_eq)
  have sum: "(of_int startT :: rat) + of_int (int i * K) = of_int (startT + int i * K)"
    by (simp only: of_int_add)
  have st: "newDate (fl (of_int startT + fl (fl (of_nat i * 1000) * of_int maxInterval)))
              = Some (startT + int i * K)"
    by (simp only: off_nat sum validDate_fl [OF vs] newDate_of_int [OF vs])
  \<comment> \<open>the counter plus one\<close>
  have n1: "n - 1 \<le> (n - 1) * K"
  proof -
    have "0 \<le> n - 1" using i0 iN by simp
    then have "(n - 1) * 1 \<le> (n - 1) * K" using K by (intro mult_left_mono) simp_all
    then show ?thesis by simp
  qed
  have "\<bar>int i + 1\<bar> \<le> 2 ^ 53" using iN n1 lo D i0 by linarith
  then have "fl (of_int (int i + 1)) = of_int (int i + 1)" by (rule fl_exact)
  then have c1: "fl (of_nat i + 1) = of_int (int i + 1)"
    by (simp only: of_int_add of_int_of_nat_eq of_int_1)
  \<comment> \<open>the end of the interval\<close>
  have en: "(if earlier (newDate (fl (of_int startT
                 + fl (fl (fl (of_nat i + 1) * 1000) * of_int maxInterval)))) endT
             then newDate (fl (of_int startT
                 + fl (fl (fl (of_nat i + 1) * 1000) * of_int maxInterval)))
             else Some endT)
            = Some (min (startT + (int i + 1) * K) endT)"
  proof (cases "int i + 1 \<le> n - 1")
    case True
    then have jK: "(int i + 1) * K \<le> (n - 1) * K" using K by (intro mult_right_mono) simp_all
    then have "(int i + 1) * K \<le> 2 ^ 53" using lo D by linarith
    then have off': "fl (fl (of_int (int i + 1) * 1000) * of_int maxInterval)
                       = of_int ((int i + 1) * K)"
      unfolding K_def using m i0 by (intro offset_exact) simp_all
    have below: "startT + (int i + 1) * K < endT" using jK lo by linarith
    then have e2: "startT + (int i + 1) * K \<le> endT" by simp
    have e1: "startT \<le> startT + (int i + 1) * K" using i0 K by simp
    have ve: "validDate (startT + (int i + 1) * K)"
      by (rule validDate_between [OF s e e1 e2])
    have sum': "(of_int startT :: rat) + of_int ((int i + 1) * K)
                  = of_int (startT + (int i + 1) * K)"
      by (simp only: of_int_add)
    have "newDate (fl (of_int startT
                     + fl (fl (fl (of_nat i + 1) * 1000) * of_int maxInterval)))
                   = Some (startT + (int i + 1) * K)"
      by (simp only: c1 off' sum' validDate_fl [OF ve] newDate_of_int [OF ve])
    then show ?thesis using below by (simp add: earlier_def min_def)
  next
    case False
    then have "int i + 1 = n" using iN by simp
    then have ge: "endT - startT \<le> (int i + 1) * (1000 * maxInterval)"
      using hi by (simp add: K_def)
    have "0 \<le> int i + 1" by simp
    from offset_beyond [OF m this D ge] obtain b where
      b: "fl (fl (of_int (int i + 1) * 1000) * of_int maxInterval) = of_int b"
      and Db: "endT - startT \<le> b" by blast
    have "endT \<le> startT + b" using Db by simp
    from sum_beyond [OF e this] obtain v where
      v: "fl (of_int startT + of_int b) = of_int v" and ev: "endT \<le> v" by blast
    have "\<not> earlier (newDate (fl (of_int startT
                   + fl (fl (fl (of_nat i + 1) * 1000) * of_int maxInterval)))) endT"
      unfolding c1 b v by (rule not_earlier_newDate [OF ev])
    moreover have "endT \<le> startT + (int i + 1) * K" using ge by (simp add: K_def)
    ultimately show ?thesis by (simp add: min_def)
  qed
  have Ks: "startT + int i * 1000 * maxInterval = startT + int i * K"
    "startT + (int i + 1) * 1000 * maxInterval = startT + (int i + 1) * K"
    by (simp_all only: K_def mult.assoc)
  show ?thesis
    unfolding newInterval_def exactInterval_def Let_def
    by (simp only: st en Ks)
qed

lemma generateIntervals_split:
  assumes s: "validDate startT" and e: "validDate endT" and m: "0 < maxInterval"
    and d: "1000 * maxInterval < endT - startT" and D: "endT - startT \<le> 2 ^ 53"
  shows "generateIntervals startT endT maxInterval =
         map (exactInterval startT endT maxInterval) [0 ..< intervalCount startT endT maxInterval]"
proof -
  define K where "K = maxInterval * 1000"
  define W where "W = endT - startT"
  have K: "0 < K" and KW: "K < W" and W: "W \<le> 2 ^ 53"
    using m d D by (simp_all add: K_def W_def)
  have "fl (of_int W) = of_int W" using K KW W by (intro fl_exact) simp
  then have fW: "fl (of_int endT - of_int startT) = of_int W" by (simp add: W_def)
  have "fl (of_int K) = of_int K" using K KW W by (intro fl_exact) simp
  then have fK: "fl (1000 * of_int maxInterval) = of_int K"
    "fl (of_int maxInterval * 1000) = of_int K" by (simp_all add: K_def mult.commute)
  have "(of_int K :: rat) < of_int W" using KW by (simp only: of_int_less_iff)
  then have cond: "fl (of_int endT - of_int startT) > fl (1000 * of_int maxInterval)"
    by (simp only: fW fK)
  have "\<lceil>fl (of_int W / of_int K)\<rceil> = \<lceil>(of_int W :: rat) / of_int K\<rceil>"
    using fl_quotient [OF K KW W] by (intro ceiling_unique) simp_all
  then have cnt: "nat \<lceil>fl (of_int W / of_int K)\<rceil> = intervalCount startT endT maxInterval"
    by (simp add: intervalCount_def W_def K_def)
  have "generateIntervals startT endT maxInterval
          = intervalLoop (fl (of_int W / of_int K)) startT endT maxInterval 0 []"
    using m cond by (simp add: generateIntervals_def Let_def fW fK)
  also have "\<dots> = map (newInterval startT endT maxInterval)
                      [0 ..< intervalCount startT endT maxInterval]"
    by (simp add: intervalLoop_unfold cnt)
  also have "\<dots> = map (exactInterval startT endT maxInterval)
                      [0 ..< intervalCount startT endT maxInterval]"
    by (rule map_cong [OF refl]) (simp only: set_upt atLeastLessThan_iff newInterval_exact [OF s e m d D])
  finally show ?thesis .
qed



lemma generateIntervals_single:
  assumes "maxInterval \<le> 0 \<or> (startT < endT \<and> endT - startT \<le> 1000 * maxInterval)"
  shows "generateIntervals startT endT maxInterval = [\<lparr>startTime = Some startT, endTime = Some endT\<rparr>]"
proof (cases "maxInterval \<le> 0")
  case True
  then show ?thesis by (simp add: generateIntervals_def)
next
  case False
  then have lt: "startT < endT" and le: "endT - startT \<le> 1000 * maxInterval"
    using assms by simp_all
  have "(1::rat) \<le> of_int (endT - startT)" using lt by simp
  moreover have "(of_int (endT - startT) :: rat) \<le> of_int (1000 * maxInterval)"
    using le by (simp only: of_int_le_iff)
  ultimately have "fl (of_int (endT - startT)) \<le> fl (of_int (1000 * maxInterval))"
    by (rule fl_mono)
  then have "\<not> fl (of_int endT - of_int startT) > fl (1000 * of_int maxInterval)" by simp
  then show ?thesis by (simp add: generateIntervals_def)
qed

lemma exactInterval_fields:
  "startTime (exactInterval s e m i) = Some (s + int i * 1000 * m)"
  "endTime (exactInterval s e m i) = Some (min (s + (int i + 1) * 1000 * m) e)"
  by (simp_all add: exactInterval_def)

lemma split_first_last:
  assumes s: "validDate startT" and e: "validDate endT" and m: "0 < maxInterval"
    and d: "1000 * maxInterval < endT - startT" and D: "endT - startT \<le> 2 ^ 53"
  defines "xs \<equiv> generateIntervals startT endT maxInterval"
  shows "xs \<noteq> []" and "startTime (hd xs) = Some startT" and "endTime (last xs) = Some endT"
proof -
  let ?n = "intervalCount startT endT maxInterval"
  have xs: "xs = map (exactInterval startT endT maxInterval) [0 ..< ?n]"
    unfolding xs_def by (rule generateIntervals_split [OF s e m d D])
  have n2: "2 \<le> ?n" by (rule intervalCount_bounds(3) [OF m d])
  then have ne: "[0 ..< ?n] \<noteq> []" by simp
  show "xs \<noteq> []" using ne by (simp add: xs)
  show "startTime (hd xs) = Some startT"
    using ne n2 by (simp add: xs hd_map exactInterval_fields)
  have hi: "endT - startT \<le> int ?n * (1000 * maxInterval)"
    by (rule intervalCount_bounds(2) [OF m d])
  have n1: "int (?n - 1) + 1 = int ?n" using n2 by simp
  have "endTime (exactInterval startT endT maxInterval (?n - 1))
          = Some (min (startT + (int (?n - 1) + 1) * 1000 * maxInterval) endT)"
    by (simp only: exactInterval_fields)
  also have "\<dots> = Some (min (startT + int ?n * 1000 * maxInterval) endT)"
    by (simp only: n1)
  also have "\<dots> = Some endT"
    using hi by (simp add: min_def algebra_simps)
  finally show "endTime (last xs) = Some endT"
    using ne n2 by (simp add: xs last_map)
qed

lemma split_consecutive:
  assumes s: "validDate startT" and e: "validDate endT" and m: "0 < maxInterval"
    and d: "1000 * maxInterval < endT - startT" and D: "endT - startT \<le> 2 ^ 53"
  defines "xs \<equiv> generateIntervals startT endT maxInterval"
  assumes k: "Suc k < length xs"
  shows "endTime (xs ! k) = startTime (xs ! Suc k)"
proof -
  let ?n = "intervalCount startT endT maxInterval"
  have xs: "xs = map (exactInterval startT endT maxInterval) [0 ..< ?n]"
    unfolding xs_def by (rule generateIntervals_split [OF s e m d D])
  have kn: "Suc k < ?n" using k by (simp add: xs)
  have lo: "(int ?n - 1) * (1000 * maxInterval) < endT - startT"
    by (rule intervalCount_bounds(1) [OF m d])
  have "int k + 1 \<le> int ?n - 1" using kn by simp
  then have "(int k + 1) * (1000 * maxInterval) \<le> (int ?n - 1) * (1000 * maxInterval)"
    using m by (intro mult_right_mono) simp_all
  then have "startT + (int k + 1) * 1000 * maxInterval < endT"
    using lo by (simp add: algebra_simps)
  then show ?thesis
    using kn by (simp add: xs exactInterval_fields min_def)
qed

lemma split_span:
  assumes s: "validDate startT" and e: "validDate endT" and m: "0 < maxInterval"
    and d: "1000 * maxInterval < endT - startT" and D: "endT - startT \<le> 2 ^ 53"
  assumes iv: "iv \<in> set (generateIntervals startT endT maxInterval)"
  shows "\<exists>a b. startTime iv = Some a \<and> endTime iv = Some b \<and> a < b
               \<and> b - a \<le> 1000 * maxInterval"
proof -
  let ?n = "intervalCount startT endT maxInterval"
  from iv obtain i where i: "i < ?n" and iv_eq: "iv = exactInterval startT endT maxInterval i"
    unfolding generateIntervals_split [OF s e m d D] by auto
  have lo: "(int ?n - 1) * (1000 * maxInterval) < endT - startT"
    by (rule intervalCount_bounds(1) [OF m d])
  have "int i \<le> int ?n - 1" using i by simp
  then have "int i * (1000 * maxInterval) \<le> (int ?n - 1) * (1000 * maxInterval)"
    using m by (intro mult_right_mono) simp_all
  then have below: "startT + int i * 1000 * maxInterval < endT"
    using lo by (simp add: algebra_simps)
  let ?a = "startT + int i * 1000 * maxInterval"
  let ?b = "min (startT + (int i + 1) * 1000 * maxInterval) endT"
  have "?a < ?b" using below m by (simp add: min_def algebra_simps)
  moreover have "?b - ?a \<le> 1000 * maxInterval" by (simp add: min_def algebra_simps)
  ultimately show ?thesis by (simp add: iv_eq exactInterval_fields)
qed

lemma two_hours:
  assumes "validDate startT" and "validDate (startT + 7200000)"
  shows "generateIntervals startT (startT + 7200000) 3600 =
            [\<lparr>startTime = Some startT, endTime = Some (startT + 3600000)\<rparr>,
             \<lparr>startTime = Some (startT + 3600000), endTime = Some (startT + 7200000)\<rparr>]"
proof -
  have c: "intervalCount startT (startT + 7200000) 3600 = 2"
    by (simp add: intervalCount_def)
  have "generateIntervals startT (startT + 7200000) 3600
          = map (exactInterval startT (startT + 7200000) 3600)
              [0 ..< intervalCount startT (startT + 7200000) 3600]"
    using assms by (intro generateIntervals_split) simp_all
  then show ?thesis by (simp add: c exactInterval_def numeral_2_eq_2)
qed

text \<open>
  Claim C1, as amended. For valid dates with \<open>startTime\<close> before \<open>endTime\<close> and at
  most 9007199254740992 milliseconds (2 to the power 53) apart, and a positive
  \<open>maxInterval\<close>, \<open>generateIntervals\<close> returns a non-empty list of consecutive
  sub-intervals (each ends where the next starts), the first starting at \<open>startTime\<close>,
  the last ending exactly at \<open>endTime\<close>, each between valid dates, non-empty and of at
  most \<open>maxInterval\<close> seconds. When \<open>maxInterval\<close> is not positive, or the window of
  \<open>startTime\<close> before \<open>endTime\<close> is at most \<open>maxInterval\<close> seconds long, the
  result is the single interval from \<open>startTime\<close> to \<open>endTime\<close>. A window of two
  hours with \<open>maxInterval = 3600\<close> gives exactly two sub-intervals of one hour.
\<close>

theorem generateIntervals_covers_bounded_window:
  fixes startT endT maxInterval :: int
  defines "xs \<equiv> generateIntervals startT endT maxInterval"
  shows "(validDate startT \<and> validDate endT \<and> startT < endT
            \<and> endT - startT \<le> 9007199254740992 \<and> 0 < maxInterval \<longrightarrow>
            xs \<noteq> [] \<and> startTime (hd xs) = Some startT \<and> endTime (last xs) = Some endT
          \<and> (\<forall>k. Suc k < length xs \<longrightarrow> endTime (xs ! k) = startTime (xs ! Suc k))
          \<and> (\<forall>iv \<in> set xs. \<exists>a b. startTime iv = Some a \<and> endTime iv = Some b \<and> a < b
                \<and> b - a \<le> 1000 * maxInterval))
       \<and> (maxInterval \<le> 0 \<or> (startT < endT \<and> endT - startT \<le> 1000 * maxInterval) \<longrightarrow>
            xs = [\<lparr>startTime = Some startT, endTime = Some endT\<rparr>])
       \<and> (validDate startT \<and> validDate (startT + 7200000) \<longrightarrow>
            generateIntervals startT (startT + 7200000) 3600 =
              [\<lparr>startTime = Some startT, endTime = Some (startT + 3600000)\<rparr>,
               \<lparr>startTime = Some (startT + 3600000), endTime = Some (startT + 7200000)\<rparr>])"
proof (intro conjI impI)
  assume "maxInterval \<le> 0 \<or> (startT < endT \<and> endT - startT \<le> 1000 * maxInterval)"
  then show "xs = [\<lparr>startTime = Some startT, endTime = Some endT\<rparr>]"
    unfolding xs_def by (rule generateIntervals_single)
next
  assume "validDate startT \<and> validDate (startT + 7200000)"
  then show "generateIntervals startT (startT + 7200000) 3600 =
              [\<lparr>startTime = Some startT, endTime = Some (startT + 3600000)\<rparr>,
               \<lparr>startTime = Some (startT + 3600000), endTime = Some (startT + 7200000)\<rparr>]"
    by (simp add: two_hours)
next
  assume A: "validDate startT \<and> validDate endT \<and> startT < endT
            \<and> endT - startT \<le> 9007199254740992 \<and> 0 < maxInterval"
  then have s: "validDate startT" and e: "validDate endT" and se: "startT < endT"
    and D: "endT - startT \<le> 2 ^ 53" and m: "0 < maxInterval" by simp_all
  have single: "generateIntervals startT endT maxInterval
                  = [\<lparr>startTime = Some startT, endTime = Some endT\<rparr>]"
    if "\<not> 1000 * maxInterval < endT - startT"
    using that se by (intro generateIntervals_single) simp
  show "xs \<noteq> []"
  proof (cases "1000 * maxInterval < endT - startT")
    case True
    then show ?thesis unfolding xs_def by (rule split_first_last(1) [OF s e m _ D])
  next
    case False
    then show ?thesis unfolding xs_def by (simp add: single)
  qed
  show "startTime (hd xs) = Some startT"
  proof (cases "1000 * maxInterval < endT - startT")
    case True
    then show ?thesis unfolding xs_def by (rule split_first_last(2) [OF s e m _ D])
  next
    case False
    then show ?thesis unfolding xs_def by (simp add: single)
  qed
  show "endTime (last xs) = Some endT"
  proof (cases "1000 * maxInterval < endT - startT")
    case True
    then show ?thesis unfolding xs_def by (rule split_first_last(3) [OF s e m _ D])
  next
    case False
    then show ?thesis unfolding xs_def by (simp add: single)
  qed
  show "\<forall>k. Suc k < length xs \<longrightarrow> endTime (xs ! k) = startTime (xs ! Suc k)"
  proof (cases "1000 * maxInterval < endT - startT")
    case True
    then show ?thesis unfolding xs_def using split_consecutive [OF s e m _ D] by blast
  next
    case False
    then show ?thesis unfolding xs_def by (simp add: single)
  qed
  show "\<forall>iv \<in> set xs. \<exists>a b. startTime iv = Some a \<and> endTime iv = Some b \<and> a < b
                \<and> b - a \<le> 1000 * maxInterval"
  proof (cases "1000 * maxInterval < endT - startT")
    case True
    then show ?thesis unfolding xs_def using split_span [OF s e m _ D] by blast
  next
    case False
    then show ?thesis unfolding xs_def using se by (simp add: single)
  qed
qed

theorem generateIntervals_covers_bounded_window_witness:
  "generateIntervals 1577836800000 1577844000000 3600 =
     [\<lparr>startTime = Some 1577836800000, endTime = Some 1577840400000\<rparr>,
      \<lparr>startTime = Some 1577840400000, endTime = Some 1577844000000\<rparr>]
   \<and> generateIntervals 0 7200001 3600 \<noteq> []
   \<and> startTime (hd (generateIntervals 0 7200001 3600)) = Some 0
   \<and> endTime (last (generateIntervals 0 7200001 3600)) = Some 7200001
   \<and> generateIntervals 0 1000 5 = [\<lparr>startTime = Some 0, endTime = Some 1000\<rparr>]"
  using generateIntervals_covers_bounded_window [of 1577836800000 1577844000000 3600]
    generateIntervals_covers_bounded_window [of 0 7200001 3600]
    generateIntervals_covers_bounded_window [of 0 1000 5]
  by (simp add: validDate_def)

text \<open>
  Claim C1 as stated fails for a window wider than 2 to the power 53 milliseconds: from
  -4600000000000000 to 4600000000000001 with \<open>maxInterval = 4600000000000\<close>, the
  length of the window is rounded to 9200000000000000, the quotient is 2, and the
  second and last sub-interval ends at 4600000000000000, one millisecond before
  \<open>endTime\<close>.
\<close>

theorem generateIntervals_wide_window_counterexample:
  "validDate (- 4600000000000000) \<and> validDate 4600000000000001
   \<and> generateIntervals (- 4600000000000000) 4600000000000001 4600000000000 =
       [\<lparr>startTime = Some (- 4600000000000000), endTime = Some 0\<rparr>,
        \<lparr>startTime = Some 0, endTime = Some 4600000000000000\<rparr>]"
  by code_simp


section \<open>Properties of the outgoing file names\<close>

lemma lastIndexOf_last_occurrence:
  assumes "c \<notin> set post"
  shows "lastIndexOf (pre @ c # post) c = int (length pre)"
proof -
  have "takeWhile (\<lambda>x. x \<noteq> c) (rev post @ c # rev pre) = rev post"
    using assms by (subst takeWhile_append2) auto
  then show ?thesis by (simp add: lastIndexOf_def)
qed

lemma lastIndexOf_absent: "c \<notin> set s \<Longrightarrow> lastIndexOf s c = - 1"
  by (simp add: lastIndexOf_def)

lemma slice_truncate:
  assumes "c \<notin> set post"
  shows "slice (pre @ c # post) 0 (lastIndexOf (pre @ c # post) c) = pre"
  by (simp add: lastIndexOf_last_occurrence [OF assms] slice_def Let_def)

lemma slice_drop_last:
  assumes "c \<notin> set s"
  shows "slice s 0 (lastIndexOf s c) = butlast s"
proof -
  have "nat (int (length s) - 1) = length s - 1" by linarith
  then show ?thesis
    by (simp add: lastIndexOf_absent [OF assms] slice_def Let_def butlast_conv_take max_def)
qed

lemma parse_example:
  "path_parse ''/cache/my-data-1700000000.csv'' = \<lparr>name = ''my-data-1700000000'', ext = ''.csv''\<rparr>"
  by (simp add: path_parse_def basename_def lastIndexOf_def Let_def)

lemma parse_example2:
  "path_parse ''/cache/data.csv'' = \<lparr>name = ''data'', ext = ''.csv''\<rparr>"
  by (simp add: path_parse_def basename_def lastIndexOf_def Let_def)


text \<open>
  Claim C10. When the base name read by \<open>path.parse\<close> contains a \<open>-\<close>, that is, when
  it is \<open>pre @ ''-'' @ post\<close> with no \<open>-\<close> in \<open>post\<close>, both
  \<open>generateFormDataBodyFromFile\<close> and \<open>NorthSFTP.handleFile\<close> keep \<open>pre\<close>, the
  base name cut at its last \<open>-\<close>, followed by the original extension; \<open>handleFile\<close>
  puts the configured prefix and suffix around \<open>pre\<close>, which are empty when they are
  not configured. When the base name has no \<open>-\<close>, the name kept is the base name without
  its last character.
\<close>

theorem outgoing_filename_truncated:
  fixes filePath :: string
  defines "p \<equiv> path_parse filePath"
  shows "(\<forall>pre post. name p = pre @ ''-'' @ post \<and> CHR ''-'' \<notin> set post \<longrightarrow>
            generateFormDataBodyFromFile filePath = pre @ ext p
          \<and> resultingFilename settings connectorName nowDate filePath =
               expand nowDate connectorName (prefix settings) @ pre
                 @ expand nowDate connectorName (suffix settings) @ ext p
          \<and> (prefix settings = None \<and> suffix settings = None \<longrightarrow>
               resultingFilename settings connectorName nowDate filePath = pre @ ext p))
       \<and> (CHR ''-'' \<notin> set (name p) \<longrightarrow>
            generateFormDataBodyFromFile filePath = butlast (name p) @ ext p
          \<and> resultingFilename settings connectorName nowDate filePath =
               expand nowDate connectorName (prefix settings) @ butlast (name p)
                 @ expand nowDate connectorName (suffix settings) @ ext p)"
proof (intro conjI allI impI)
  fix pre post
  assume A: "name p = pre @ ''-'' @ post \<and> CHR ''-'' \<notin> set post"
  then have n: "name (path_parse filePath) = pre @ CHR ''-'' # post"
    and np: "CHR ''-'' \<notin> set post" by (simp_all add: p_def)
  show "generateFormDataBodyFromFile filePath = pre @ ext p"
    by (simp add: generateFormDataBodyFromFile_def Let_def n slice_truncate [OF np] p_def)
  show r: "resultingFilename settings connectorName nowDate filePath =
               expand nowDate connectorName (prefix settings) @ pre
                 @ expand nowDate connectorName (suffix settings) @ ext p"
    by (simp add: resultingFilename_def Let_def n slice_truncate [OF np] p_def)
  assume "prefix settings = None \<and> suffix settings = None"
  then show "resultingFilename settings connectorName nowDate filePath = pre @ ext p"
    by (simp add: r expand_def orEmpty_def replace_def)
next
  assume A: "CHR ''-'' \<notin> set (name p)"
  then have np: "CHR ''-'' \<notin> set (name (path_parse filePath))" by (simp add: p_def)
  show "generateFormDataBodyFromFile filePath = butlast (name p) @ ext p"
    by (simp add: generateFormDataBodyFromFile_def Let_def slice_drop_last [OF np] p_def)
  show "resultingFilename settings connectorName nowDate filePath =
               expand nowDate connectorName (prefix settings) @ butlast (name p)
                 @ expand nowDate connectorName (suffix settings) @ ext p"
    by (simp add: resultingFilename_def Let_def slice_drop_last [OF np] p_def)
qed

theorem outgoing_filename_truncated_witness:
  "generateFormDataBodyFromFile ''/cache/my-data-1700000000.csv'' = ''my-data.csv''
   \<and> resultingFilename \<lparr>remoteFolder = ''/in'', prefix = None, suffix = None\<rparr>
        ''north'' ''2024_01_01_00_00_00_000'' ''/cache/my-data-1700000000.csv'' = ''my-data.csv''
   \<and> generateFormDataBodyFromFile ''/cache/data.csv'' = ''dat.csv''"
  using outgoing_filename_truncated [of "''/cache/my-data-1700000000.csv''"
          "\<lparr>remoteFolder = ''/in'', prefix = None, suffix = None\<rparr>" "''north''"
          "''2024_01_01_00_00_00_000''", THEN conjunct1, rule_format, of "''my-data''" "''1700000000''"]
        outgoing_filename_truncated [of "''/cache/data.csv''"
          "\<lparr>remoteFolder = ''/in'', prefix = None, suffix = None\<rparr>" "''north''"
          "''2024_01_01_00_00_00_000''", THEN conjunct2]
  by (simp add: parse_example parse_example2 expand_def orEmpty_def replace_def)



section \<open>The IP filter and its logger\<close>

lemma ipFilter_awaits_next_iff_match:
  "((\<exists>r. fst (ipFilter glob logger ipfilter next ip logged) = Downstream r)
      \<longleftrightarrow> (\<exists>p \<in> set ipfilter. glob ip p))
   \<and> ((\<exists>p \<in> set ipfilter. glob ip p) \<longrightarrow>
        ipFilter glob logger ipfilter next ip logged = (Downstream (next ip), logged))"
  by (auto simp: ipFilter_def isMatch_def list_ex_iff split: option.splits)

lemma ipFilter_with_logger:
  "\<not> (\<exists>p \<in> set ipfilter. glob ip p) \<Longrightarrow>
     fst (ipFilter glob (Some logError) ipfilter next ip logged)
       = HttpError 401 (ip @ '' is not authorized'')"
  by (simp add: ipFilter_def isMatch_def list_ex_iff)

text \<open>
  Claim C9 says that a request from an address that matches no pattern of the filter is
  rejected with status 401. In the module as it is, \<open>logger\<close> is unbound: for the filter
  \<open>127.0.0.1\<close>, \<open>::1\<close> and a request from \<open>10.0.0.7\<close>, the middleware does not await
  the downstream handler, and it throws the \<open>ReferenceError\<close> of \<open>logger.error\<close>
  before it reaches \<open>ctx.throw(401, ...)\<close>; nothing is logged.
\<close>

theorem ipFilter_unbound_logger:
  "ipFilter (\<lambda>s p. s = p) (None :: (string \<Rightarrow> string list \<Rightarrow> string list) option)
     [''127.0.0.1'', ''::1''] (\<lambda>ip. ''handled'') ''10.0.0.7'' []
     = (ReferenceError ''logger is not defined'', [])"
  by (simp add: ipFilter_def isMatch_def)


section \<open>The first batch of the MongoDB connector\<close>

text \<open>
  Claim C4 says that \<open>handleValues\<close> either delivers all the values it is given or
  throws, in particular for the first batch handled after a fresh connection. The source
  does otherwise: while \<open>collectionChecked\<close> is not set, \<open>makeRequest\<close> only makes
  sure that the collection exists (when \<open>createCollection\<close> is configured) and returns
  without calling \<open>insertMany\<close>. On a connector that has just connected, a batch of one
  value is reported as handled (the count 1 is returned and added to the number of values
  sent) while no document has reached the database; when \<open>createCollection\<close> is not
  configured the connector is left as it was, so the same happens to every later batch.
\<close>

theorem handleValues_first_batch_not_inserted:
  "fst (handleValues exampleRender (\<lambda>d. True) [\<lparr>pointId = ''p1'', data = ''1''\<rparr>]
          (connectedMongo True)) = Inr 1
   \<and> delivered (snd (handleValues exampleRender (\<lambda>d. True) [\<lparr>pointId = ''p1'', data = ''1''\<rparr>]
          (connectedMongo True))) = []
   \<and> fst (handleValues exampleRender (\<lambda>d. True) [\<lparr>pointId = ''p1'', data = ''1''\<rparr>]
          (connectedMongo False)) = Inr 1
   \<and> snd (handleValues exampleRender (\<lambda>d. True) [\<lparr>pointId = ''p1'', data = ''1''\<rparr>]
          (connectedMongo False)) = (connectedMongo False)\<lparr>numberOfValuesSent := 1\<rparr>"
  by (simp add: handleValues_def makeRequest_def ensureCollectionExists_def exampleRender_def
        connectedMongo_def delivered_def Let_def)


section \<open>The probe connection of \<open>testConnection\<close>\<close>

text \<open>
  Claim C6 says that the probe connection of \<open>testConnection\<close> is torn down on every
  path. The source calls \<open>client.end()\<close> inside the \<open>try\<close> block, after
  \<open>client.exists\<close>: when the connection has been opened and \<open>client.exists\<close>
  throws, the access error is thrown with the connection still open, whatever the state
  \<open>c\<close> of the connector, which is handed back as it was.
\<close>

theorem testConnection_leaves_probe_open:
  "testConnection \<lparr>optionsFailure = None, connectFailure = None,
                    existsOutcome = Inl ''Permission denied'', endFailure = None\<rparr> c 0
     = (Inl (AccessError ''Permission denied''), c, 1)"
  by (simp add: testConnection_def)


section \<open>Properties of the OPCHDA connector\<close>

lemma timers_clearTimeout: "timers (clearTimeout t s) = filter (\<lambda>(i, cb). i \<noteq> t) (timers s)"
  by (simp add: clearTimeout_def)

lemma clearTimeout_fields:
  "reconnectTimeout (clearTimeout t s) = reconnectTimeout s"
  "historyReadTimeout (clearTimeout t s) = historyReadTimeout s"
  "historyRead (clearTimeout t s) = historyRead s"
  "agentConnected (clearTimeout t s) = agentConnected s"
  "connected (clearTimeout t s) = connected s"
  "addedValues (clearTimeout t s) = addedValues s"
  "nextTimer (clearTimeout t s) = nextTimer s"
  "itemsByGroups (clearTimeout t s) = itemsByGroups s"
  by (simp_all add: clearTimeout_def)

lemma timers_disconnect:
  "timers (disconnect s) =
     filter (\<lambda>(i, cb). i \<notin> heldTimers s) (timers s)"
  by (cases "reconnectTimeout s"; cases "historyReadTimeout s")
     (auto simp: disconnect_def heldTimers_def clearTimeout_def agent_disconnect_def
        super_disconnect_def Let_def intro!: filter_cong)

lemma disconnect_fields:
  "reconnectTimeout (disconnect s) = reconnectTimeout s"
  "historyReadTimeout (disconnect s) = historyReadTimeout s"
  "historyRead (disconnect s) = historyRead s"
  "agentConnected (disconnect s) = False"
  "connected (disconnect s) = False"
  "addedValues (disconnect s) = addedValues s"
  "nextTimer (disconnect s) = nextTimer s"
  "itemsByGroups (disconnect s) = itemsByGroups s"
  "readMessages (disconnect s) = readMessages s"
  "reconnections (disconnect s) = reconnections s"
  "south.more (disconnect s) = south.more s"
  by (simp_all add: disconnect_def clearTimeout_def agent_disconnect_def
        super_disconnect_def Let_def split: option.splits)

lemma pendingTimers_disconnect: "pendingTimers (disconnect s) = pendingTimers s - heldTimers s"
  by (auto simp: pendingTimers_def timers_disconnect)

lemma heldTimers_disconnect: "heldTimers (disconnect s) = heldTimers s"
  by (simp add: heldTimers_def disconnect_fields)

lemma disconnect_as_update:
  "disconnect s = s\<lparr>timers := filter (\<lambda>(i, cb). i \<notin> heldTimers s) (timers s),
                     agentConnected := False, connected := False\<rparr>"
  by (rule south.equality) (simp_all add: timers_disconnect disconnect_fields)

lemma disconnect_noop:
  assumes "isDisconnected s"
  shows "disconnect s = s"
proof -
  have disj: "heldTimers s \<inter> pendingTimers s = {}"
    using assms by (simp add: isDisconnected_def)
  have "\<forall>x \<in> set (timers s). (\<lambda>(i, cb). i \<notin> heldTimers s) x"
  proof
    fix x assume x: "x \<in> set (timers s)"
    then have "fst x \<in> pendingTimers s" by (simp add: pendingTimers_def)
    then have "fst x \<notin> heldTimers s" using disj by blast
    then show "(\<lambda>(i, cb). i \<notin> heldTimers s) x" by (simp add: case_prod_beta)
  qed
  then have "filter (\<lambda>(i, cb). i \<notin> heldTimers s) (timers s) = timers s"
    by (simp only: filter_True)
  then show ?thesis
    using assms by (simp add: disconnect_as_update isDisconnected_def)
qed

lemma isDisconnected_disconnect: "isDisconnected (disconnect s)"
  by (auto simp: isDisconnected_def disconnect_fields heldTimers_disconnect pendingTimers_disconnect)

lemma fireTimer_not_pending:
  assumes "t \<notin> pendingTimers s"
  shows "fireTimer cfg t s = s"
proof -
  have "map_of (timers s) t = None"
    using assms by (simp add: pendingTimers_def map_of_eq_None_iff)
  then show ?thesis by (simp add: fireTimer_def)
qed

lemma setTimeout_fields:
  "timers (snd (setTimeout cb s)) = timers s @ [(nextTimer s, cb)]"
  "fst (setTimeout cb s) = nextTimer s"
  "historyRead (snd (setTimeout cb s)) = historyRead s"
  "addedValues (snd (setTimeout cb s)) = addedValues s"
  "itemsByGroups (snd (setTimeout cb s)) = itemsByGroups s"
  "reconnectTimeout (snd (setTimeout cb s)) = reconnectTimeout s"
  "historyReadTimeout (snd (setTimeout cb s)) = historyReadTimeout s"
  by (simp_all add: setTimeout_def)

lemma begin_fields:
  "historyRead (historyQuery_begin a b s) = Some Pending"
  "itemsByGroups (historyQuery_begin a b s) = itemsByGroups s"
  "addedValues (historyQuery_begin a b s) = addedValues s"
  "timers (historyQuery_begin a b s) = timers s @ [(nextTimer s, RejectHistoryRead)]"
  "historyReadTimeout (historyQuery_begin a b s) = Some (nextTimer s)"
  "reconnectTimeout (historyQuery_begin a b s) = reconnectTimeout s"
  by (simp_all add: historyQuery_begin_def sendReadMessages_def setTimeout_def Let_def)

lemma await_settled:
  "historyRead s \<noteq> Some Pending \<Longrightarrow> awaitHistoryRead cfg evs s = (historyRead s, s)"
  by (cases evs) simp_all

lemma await_first_event:
  assumes "historyRead s = Some Pending"
    and "historyRead (deliver cfg ev s) \<noteq> Some Pending"
  shows "awaitHistoryRead cfg (ev # evs) s = (historyRead (deliver cfg ev s), deliver cfg ev s)"
  using assms by (simp add: await_settled)

lemma read_error:
  assumes "reportsError c" and "historyRead s = Some Pending"
  shows "\<exists>e. Error c = Some e \<and> e \<noteq> []
           \<and> historyRead (handleReadMessage cfg c s) = Some (Rejected (AgentError e))"
    and "addedValues (handleReadMessage cfg c s) = addedValues s"
  using assms
  by (auto simp: reportsError_def handleReadMessage_def reject_def Let_def disconnect_fields
        setTimeout_def split: option.splits list.splits prod.splits)

lemma read_missing_points:
  assumes "\<not> reportsError c" and "Points c = None" and "historyRead s = Some Pending"
  shows "historyRead (handleReadMessage cfg c s) = Some (Rejected (MissingPoints (Group c)))"
    and "addedValues (handleReadMessage cfg c s) = addedValues s"
  using assms
  by (auto simp: reportsError_def handleReadMessage_def reject_def
        split: option.splits list.splits)

lemma read_empty_points:
  assumes "\<not> reportsError c" and "Points c = Some []" and "historyRead s = Some Pending"
  shows "historyRead (handleReadMessage cfg c s) = Some (Resolved 0)"
    and "addedValues (handleReadMessage cfg c s) = addedValues s"
  using assms
  by (auto simp: reportsError_def handleReadMessage_def resolve_def
        split: option.splits list.splits)

lemma read_unknown_group:
  assumes "\<not> reportsError c" and "Points c = Some ps" and "ps \<noteq> []"
    and "map_of (itemsByGroups s) (Group c) = None" and "historyRead s = Some Pending"
  shows "historyRead (handleReadMessage cfg c s) = Some (Rejected (GroupNotFound (Group c)))"
    and "addedValues (handleReadMessage cfg c s) = addedValues s"
  using assms
  by (auto simp: reportsError_def handleReadMessage_def reject_def
        split: option.splits list.splits)

lemma read_points:
  assumes "\<not> reportsError c" and "Points c = Some ps" and "ps \<noteq> []"
    and "map_of (itemsByGroups s) (Group c) = Some g" and "historyRead s = Some Pending"
  shows "historyRead (handleReadMessage cfg c s) = Some (Resolved (maxTimestampOf ps + 1))"
    and "addedValues (handleReadMessage cfg c s)
           = addedValues s @ [map (toValue g) (filter validPoint ps)]"
  using assms
  by (auto simp: reportsError_def handleReadMessage_def resolve_def Let_def
        split: option.splits list.splits)

lemma foldl_raise:
  fixes f :: "'a \<Rightarrow> int"
  shows "foldl (\<lambda>m p. if f p > m then f p else m) a xs = Max (insert a (f ` set xs))"
proof (induction xs arbitrary: a)
  case Nil
  show ?case by simp
next
  case (Cons x xs)
  have fin: "finite (f ` set xs)" by simp
  have "Max (insert (if f x > a then f x else a) (f ` set xs))
          = Max (insert a (insert (f x) (f ` set xs)))"
  proof (cases "f ` set xs = {}")
    case True
    then show ?thesis by (simp add: max_def)
  next
    case False
    then show ?thesis using fin by (simp add: max_def)
  qed
  then show ?case by (simp add: Cons.IH)
qed

lemma maxTimestampOf_Max: "maxTimestampOf ps = Max (insert 0 (observedTimestamps ps))"
  by (simp add: maxTimestampOf_def observedTimestamps_def foldl_raise)

lemma historyQuery_resolved:
  assumes "historyRead (deliver cfg ev (historyQuery_begin startT endT s)) = Some (Resolved r)"
  shows "fst (historyQuery cfg startT endT (ev # evs) s) = Returns (max startT r)"
proof -
  have "awaitHistoryRead cfg (ev # evs) (historyQuery_begin startT endT s)
          = (historyRead (deliver cfg ev (historyQuery_begin startT endT s)),
             deliver cfg ev (historyQuery_begin startT endT s))"
    by (rule await_first_event) (simp_all add: begin_fields assms)
  then have "awaitHistoryRead cfg (ev # evs) (historyQuery_begin startT endT s)
          = (Some (Resolved r), deliver cfg ev (historyQuery_begin startT endT s))"
    by (simp only: assms)
  then show ?thesis by (simp add: historyQuery_def Let_def max_def)
qed

lemma historyQuery_rejected:
  assumes "historyRead (deliver cfg ev (historyQuery_begin startT endT s)) = Some (Rejected e)"
  shows "historyQuery cfg startT endT (ev # evs) s
           = (Throws e, deliver cfg ev (historyQuery_begin startT endT s))"
proof -
  have "awaitHistoryRead cfg (ev # evs) (historyQuery_begin startT endT s)
          = (historyRead (deliver cfg ev (historyQuery_begin startT endT s)),
             deliver cfg ev (historyQuery_begin startT endT s))"
    by (rule await_first_event) (simp_all add: begin_fields assms)
  then have "awaitHistoryRead cfg (ev # evs) (historyQuery_begin startT endT s)
          = (Some (Rejected e), deliver cfg ev (historyQuery_begin startT endT s))"
    by (simp only: assms)
  then show ?thesis by (simp add: historyQuery_def)
qed

lemma deliver_ReadMessage: "deliver cfg (ReadMessage c) s = handleReadMessage cfg c s"
  by (simp add: deliver_def)

lemma fire_read_timeout:
  fixes s :: south and startT endT :: instant
  assumes "nextTimer s \<notin> pendingTimers s"
  defines "b \<equiv> historyQuery_begin startT endT s"
  shows "historyRead (deliver cfg (TimerFires (nextTimer s)) b)
           = Some (Rejected (ReadTimeout (readTimeout cfg)))"
    and "addedValues (deliver cfg (TimerFires (nextTimer s)) b) = addedValues s"
proof -
  have none: "map_of (timers s) (nextTimer s) = None"
    using assms(1) by (simp add: pendingTimers_def map_of_eq_None_iff)
  have cb: "map_of (timers b) (nextTimer s) = Some RejectHistoryRead"
    by (simp add: b_def begin_fields map_add_def none)
  have f: "deliver cfg (TimerFires (nextTimer s)) b
             = (clearTimeout (nextTimer s) b)\<lparr>historyRead :=
                  reject (ReadTimeout (readTimeout cfg))
                    (historyRead (clearTimeout (nextTimer s) b))\<rparr>"
    by (simp add: deliver_def fireTimer_def cb Let_def)
  have hb: "historyRead b = Some Pending" and ab: "addedValues b = addedValues s"
    by (simp_all add: b_def begin_fields)
  show "historyRead (deliver cfg (TimerFires (nextTimer s)) b)
           = Some (Rejected (ReadTimeout (readTimeout cfg)))"
    by (simp add: f clearTimeout_fields reject_def hb)
  show "addedValues (deliver cfg (TimerFires (nextTimer s)) b) = addedValues s"
    by (simp add: f clearTimeout_fields ab)
qed

lemmas run_defs =
  historyQuery_def historyQuery_begin_def sendReadMessages_def setTimeout_def clearTimeout_def
  deliver_def handleReadMessage_def fireTimer_def disconnect_def agent_disconnect_def
  super_disconnect_def resolve_def reject_def maxTimestampOf_def validPoint_def toMillis_def
  toValue_def associatedPointId_def handleConnectMessage_notConnected_def
  exampleSouth_def connectedSouth_def newSouth_def exampleGroup_def exampleSettings_def
  examplePoint_def pointsMessage_def errorMessage_def reportsError_def Let_def

lemma reconnect_scheduled:
  assumes "reportsError c" and "Disconnected c"
  shows "timers (handleReadMessage cfg c s) = timers (disconnect s) @ [(nextTimer s, SendConnectMessage)]"
  using assms
  by (auto simp: reportsError_def handleReadMessage_def setTimeout_def Let_def disconnect_fields
        split: option.splits list.splits)

text \<open>
  Claim C2, as amended. When the first event after the requests is a reply without error
  for a known group, with a non-empty list of points, \<open>historyQuery\<close> returns the
  largest timestamp observed among the kept points of that reply (or 0 when that is
  larger) plus one millisecond, or \<open>startTime\<close> when that is later. The end of the
  window does not enter the result.
\<close>

theorem historyQuery_returns_successor_of_observed_maximum:
  assumes "\<not> reportsError c" and "Points c = Some ps" and "ps \<noteq> []"
    and "map_of (itemsByGroups s) (Group c) = Some g"
  shows "fst (historyQuery cfg startT endT (ReadMessage c # evs) s)
           = Returns (max startT (Max (insert 0 (observedTimestamps ps)) + 1))"
proof -
  have "historyRead (deliver cfg (ReadMessage c) (historyQuery_begin startT endT s))
          = Some (Resolved (maxTimestampOf ps + 1))"
    unfolding deliver_ReadMessage
    by (rule read_points(1) [OF assms(1,2,3)]) (simp_all add: begin_fields assms(4))
  then show ?thesis
    by (simp only: historyQuery_resolved maxTimestampOf_Max)
qed

theorem historyQuery_returns_successor_of_observed_maximum_witness:
  "fst (historyQuery exampleSettings 1000 5000
          [ReadMessage (pointsMessage ''scanMode1-raw-none'' [examplePoint 2000, examplePoint 1500])]
          exampleSouth) = Returns 2001"
proof -
  let ?ps = "[examplePoint 2000, examplePoint 1500]"
  let ?c = "pointsMessage ''scanMode1-raw-none'' ?ps"
  have 1: "\<not> reportsError ?c" by (simp add: reportsError_def pointsMessage_def)
  have 2: "Points ?c = Some ?ps" by (simp add: pointsMessage_def)
  have 3: "?ps \<noteq> []" by simp
  have 4: "map_of (itemsByGroups exampleSouth) (Group ?c) = Some exampleGroup"
    by (simp add: exampleSouth_def newSouth_def pointsMessage_def)
  have obs: "observedTimestamps ?ps = {2000, 1500}"
    by (simp add: observedTimestamps_def examplePoint_def validPoint_def toMillis_def)
  show ?thesis
    using historyQuery_returns_successor_of_observed_maximum [OF 1 2 3 4, of exampleSettings 1000 5000 "[]"]
    by (simp add: obs)
qed

text \<open>
  Claim C2 as stated fails: with points at 2000 and 1500 in the reply and a window from
  1000 to 5000, the query returns 2001, while the largest timestamp observed is 2000.
\<close>

theorem historyQuery_returns_observed_maximum_counterexample:
  "fst (historyQuery exampleSettings 1000 5000
          [ReadMessage (pointsMessage ''scanMode1-raw-none'' [examplePoint 2000, examplePoint 1500])]
          exampleSouth) = Returns 2001
   \<and> Max (observedTimestamps [examplePoint 2000, examplePoint 1500]) = 2000"
proof
  show "fst (historyQuery exampleSettings 1000 5000
          [ReadMessage (pointsMessage ''scanMode1-raw-none'' [examplePoint 2000, examplePoint 1500])]
          exampleSouth) = Returns 2001"
    by (simp add: run_defs)
  have "observedTimestamps [examplePoint 2000, examplePoint 1500] = {2000, 1500}"
    by (simp add: observedTimestamps_def examplePoint_def validPoint_def toMillis_def)
  then show "Max (observedTimestamps [examplePoint 2000, examplePoint 1500]) = 2000"
    by simp
qed

text \<open>
  Claim C3, as amended. When the first event after the requests is a reply in which the
  agent reports an error, or a reply without error that lacks the \<open>Points\<close> entry, or
  a reply without error with a non-empty list of points for an unknown group, the query
  rejects with the matching error and no value has been given to \<open>addValues\<close>. When
  the first event is the expiry of the read timeout set by the query, the query rejects
  with the timeout error that carries the configured \<open>readTimeout\<close>. In each case no
  instant is returned.
\<close>

theorem historyQuery_rejects_failed_attempt:
  fixes cfg :: opchda_settings and startT endT :: instant and s :: south
    and c :: content and evs :: "event list"
  defines "b \<equiv> historyQuery_begin startT endT s"
  defines "r \<equiv> historyQuery cfg startT endT (ReadMessage c # evs) s"
  defines "r' \<equiv> historyQuery cfg startT endT (TimerFires (nextTimer s) # evs) s"
  shows "(reportsError c \<longrightarrow>
            (\<exists>e. Error c = Some e \<and> fst r = Throws (AgentError e))
            \<and> addedValues (snd r) = addedValues s)
       \<and> (\<not> reportsError c \<and> Points c = None \<longrightarrow>
            fst r = Throws (MissingPoints (Group c)) \<and> addedValues (snd r) = addedValues s)
       \<and> (\<not> reportsError c \<and> (\<exists>ps. Points c = Some ps \<and> ps \<noteq> [])
            \<and> map_of (itemsByGroups s) (Group c) = None \<longrightarrow>
            fst r = Throws (GroupNotFound (Group c)) \<and> addedValues (snd r) = addedValues s)
       \<and> (nextTimer s \<notin> pendingTimers s \<longrightarrow>
            fst r' = Throws (ReadTimeout (readTimeout cfg))
            \<and> addedValues (snd r') = addedValues s)"
proof (intro conjI impI)
  assume A: "reportsError c"
  have p: "historyRead b = Some Pending" by (simp add: b_def begin_fields)
  from read_error(1) [OF A p, of cfg] obtain e where e: "Error c = Some e"
    and h: "historyRead (handleReadMessage cfg c b) = Some (Rejected (AgentError e))" by blast
  have "r = (Throws (AgentError e), handleReadMessage cfg c b)"
    unfolding r_def b_def
    using h by (simp add: historyQuery_rejected deliver_ReadMessage b_def)
  then show "\<exists>e. Error c = Some e \<and> fst r = Throws (AgentError e)"
    and "addedValues (snd r) = addedValues s"
    using e read_error(2) [OF A p, of cfg] by (simp_all add: b_def begin_fields)
next
  assume A: "\<not> reportsError c \<and> Points c = None"
  have p: "historyRead b = Some Pending" by (simp add: b_def begin_fields)
  have h: "historyRead (handleReadMessage cfg c b) = Some (Rejected (MissingPoints (Group c)))"
    using A p by (intro read_missing_points(1)) simp_all
  have "r = (Throws (MissingPoints (Group c)), handleReadMessage cfg c b)"
    unfolding r_def
    using h by (simp add: historyQuery_rejected deliver_ReadMessage b_def)
  moreover have "addedValues (handleReadMessage cfg c b) = addedValues b"
    using A p by (intro read_missing_points(2)) simp_all
  ultimately show "fst r = Throws (MissingPoints (Group c))"
    and "addedValues (snd r) = addedValues s"
    by (simp_all add: b_def begin_fields)
next
  assume A: "\<not> reportsError c \<and> (\<exists>ps. Points c = Some ps \<and> ps \<noteq> [])
            \<and> map_of (itemsByGroups s) (Group c) = None"
  then obtain ps where ps: "Points c = Some ps" "ps \<noteq> []" by blast
  have p: "historyRead b = Some Pending" by (simp add: b_def begin_fields)
  have g: "map_of (itemsByGroups b) (Group c) = None"
    using A by (simp add: b_def begin_fields)
  have ne: "\<not> reportsError c" using A by simp
  have h: "historyRead (handleReadMessage cfg c b) = Some (Rejected (GroupNotFound (Group c)))"
    by (rule read_unknown_group(1) [OF ne ps g p])
  have "r = (Throws (GroupNotFound (Group c)), handleReadMessage cfg c b)"
    unfolding r_def
    using h by (simp add: historyQuery_rejected deliver_ReadMessage b_def)
  moreover have "addedValues (handleReadMessage cfg c b) = addedValues b"
    by (rule read_unknown_group(2) [OF ne ps g p])
  ultimately show "fst r = Throws (GroupNotFound (Group c))"
    and "addedValues (snd r) = addedValues s"
    by (simp_all add: b_def begin_fields)
next
  assume A: "nextTimer s \<notin> pendingTimers s"
  have "r' = (Throws (ReadTimeout (readTimeout cfg)),
              deliver cfg (TimerFires (nextTimer s)) (historyQuery_begin startT endT s))"
    unfolding r'_def by (rule historyQuery_rejected) (rule fire_read_timeout(1) [OF A])
  then show "fst r' = Throws (ReadTimeout (readTimeout cfg))"
    and "addedValues (snd r') = addedValues s"
    by (simp_all add: fire_read_timeout(2) [OF A])
qed

theorem historyQuery_rejects_failed_attempt_witness:
  "fst (historyQuery exampleSettings 1000 5000
          [ReadMessage (errorMessage ''Server unreachable'' False)] exampleSouth)
     = Throws (AgentError ''Server unreachable'')
   \<and> fst (historyQuery exampleSettings 1000 5000
          [ReadMessage \<lparr>Error = None, Disconnected = False, Points = None,
                        Group = ''scanMode1-raw-none''\<rparr>] exampleSouth)
     = Throws (MissingPoints ''scanMode1-raw-none'')
   \<and> fst (historyQuery exampleSettings 1000 5000
          [ReadMessage (pointsMessage ''unknown-group'' [examplePoint 2000])] exampleSouth)
     = Throws (GroupNotFound ''unknown-group'')
   \<and> fst (historyQuery exampleSettings 1000 5000 [TimerFires 0] exampleSouth)
     = Throws (ReadTimeout 60)"
  using
    historyQuery_rejects_failed_attempt [where c = "errorMessage ''Server unreachable'' False"
       and cfg = exampleSettings and startT = 1000 and endT = 5000 and evs = "[]"
       and s = exampleSouth]
    historyQuery_rejects_failed_attempt [where c = "\<lparr>Error = None, Disconnected = False,
                        Points = None, Group = ''scanMode1-raw-none''\<rparr>"
       and cfg = exampleSettings and startT = 1000 and endT = 5000 and evs = "[]"
       and s = exampleSouth]
    historyQuery_rejects_failed_attempt [where c = "pointsMessage ''unknown-group'' [examplePoint 2000]"
       and cfg = exampleSettings and startT = 1000 and endT = 5000 and evs = "[]"
       and s = exampleSouth]
  by (simp add: reportsError_def errorMessage_def pointsMessage_def exampleSouth_def newSouth_def
        pendingTimers_def exampleSettings_def)

text \<open>
  Claim C3 as stated fails for a reply that names an unknown group with an empty list of
  points: the emptiness is tested first, the read is resolved with 0, and the query
  returns \<open>startTime\<close> instead of rejecting.
\<close>

theorem historyQuery_rejects_unknown_group_counterexample:
  "fst (historyQuery exampleSettings 1000 5000
          [ReadMessage (pointsMessage ''unknown-group'' [])] exampleSouth) = Returns 1000
   \<and> map_of (itemsByGroups exampleSouth) ''unknown-group'' = None"
  by (simp add: run_defs)

text \<open>
  Claim C8, as amended. Whenever \<open>historyQuery\<close> returns an instant, that instant is
  not before the \<open>startTime\<close> of that query, whatever the events and the state of the
  connector; and when the reply has an empty list of points, the query does return:
  \<open>startTime\<close>, or 0 when \<open>startTime\<close> is before the epoch.
\<close>

theorem historyQuery_not_before_startTime:
  "(\<forall>t. fst (historyQuery cfg startT endT evs s) = Returns t \<longrightarrow> startT \<le> t)
   \<and> (\<not> reportsError c \<and> Points c = Some [] \<longrightarrow>
        fst (historyQuery cfg startT endT (ReadMessage c # evs') s) = Returns (max startT 0))"
proof (intro conjI allI impI)
  fix t
  assume "fst (historyQuery cfg startT endT evs s) = Returns t"
  then show "startT \<le> t"
    by (auto simp: historyQuery_def Let_def
          split: prod.splits option.splits deferred.splits if_splits)
next
  assume A: "\<not> reportsError c \<and> Points c = Some []"
  have "historyRead (deliver cfg (ReadMessage c) (historyQuery_begin startT endT s))
          = Some (Resolved 0)"
    unfolding deliver_ReadMessage
    using A by (intro read_empty_points(1)) (simp_all add: begin_fields)
  then show "fst (historyQuery cfg startT endT (ReadMessage c # evs') s) = Returns (max startT 0)"
    by (rule historyQuery_resolved)
qed

theorem historyQuery_not_before_startTime_witness:
  "fst (historyQuery exampleSettings 1000 5000
          [ReadMessage (pointsMessage ''scanMode1-raw-none'' [])] exampleSouth) = Returns 1000
   \<and> (1000 :: int) \<le> 1000"
  using historyQuery_not_before_startTime [where cfg = exampleSettings and startT = 1000
          and endT = 5000 and evs = "[ReadMessage (pointsMessage ''scanMode1-raw-none'' [])]"
          and s = exampleSouth and c = "pointsMessage ''scanMode1-raw-none'' []" and evs' = "[]"]
  by (simp add: reportsError_def pointsMessage_def)

text \<open>
  Claim C8 as stated fails across segments: the segment from 0 to 3600000 whose reply
  has a point at 3600000 returns 3600001, and the next segment, from 3600000 to 7200000,
  whose reply is empty returns 3600000, an instant before the one returned by the
  segment before it.
\<close>

theorem historyQuery_segments_move_backward_counterexample:
  "fst (historyQuery exampleSettings 0 3600000
          [ReadMessage (pointsMessage ''scanMode1-raw-none'' [examplePoint 3600000])]
          exampleSouth) = Returns 3600001
   \<and> fst (historyQuery exampleSettings 3600000 7200000
          [ReadMessage (pointsMessage ''scanMode1-raw-none'' [])]
          (snd (historyQuery exampleSettings 0 3600000
                  [ReadMessage (pointsMessage ''scanMode1-raw-none'' [examplePoint 3600000])]
                  exampleSouth))) = Returns 3600000"
  by (simp add: run_defs)

text \<open>
  Claim C5, as amended. In every state, \<open>disconnect\<close> cancels the timers whose handles
  are held in \<open>reconnectTimeout\<close> and \<open>historyReadTimeout\<close>, and only those: such a
  timer does not fire afterwards, and when every pending timer is held in these fields
  none is pending after the call. When the agent reports an error with its
  \<open>Disconnected\<close> flag, \<open>handleReadMessage\<close> schedules a new reconnection once its
  own call of \<open>disconnect\<close> has completed.
\<close>

theorem disconnect_cancels_held_timers:
  "pendingTimers (disconnect s) = pendingTimers s - heldTimers s
   \<and> (\<forall>t \<in> heldTimers s. fireTimer cfg t (disconnect s) = disconnect s)
   \<and> (pendingTimers s \<subseteq> heldTimers s \<longrightarrow> timers (disconnect s) = [])
   \<and> (reportsError c \<and> Disconnected c \<longrightarrow>
        timers (handleReadMessage cfg c s)
          = timers (disconnect s) @ [(nextTimer s, SendConnectMessage)])"
proof (intro conjI ballI impI)
  show "pendingTimers (disconnect s) = pendingTimers s - heldTimers s"
    by (rule pendingTimers_disconnect)
next
  fix t assume "t \<in> heldTimers s"
  then have "t \<notin> pendingTimers (disconnect s)"
    by (simp add: pendingTimers_disconnect)
  then show "fireTimer cfg t (disconnect s) = disconnect s"
    by (rule fireTimer_not_pending)
next
  assume "pendingTimers s \<subseteq> heldTimers s"
  then have "pendingTimers (disconnect s) = {}"
    by (simp add: pendingTimers_disconnect)
  then show "timers (disconnect s) = []"
    by (simp add: pendingTimers_def)
next
  assume "reportsError c \<and> Disconnected c"
  then show "timers (handleReadMessage cfg c s)
          = timers (disconnect s) @ [(nextTimer s, SendConnectMessage)]"
    by (simp add: reconnect_scheduled)
qed

theorem disconnect_cancels_held_timers_witness:
  "timers (handleConnectMessage_notConnected exampleSouth) = [(0, Connect)]
   \<and> timers (disconnect (handleConnectMessage_notConnected exampleSouth)) = []
   \<and> fireTimer exampleSettings 0 (disconnect (handleConnectMessage_notConnected exampleSouth))
       = disconnect (handleConnectMessage_notConnected exampleSouth)
   \<and> timers (handleReadMessage exampleSettings (errorMessage ''Server down'' True)
                (handleConnectMessage_notConnected exampleSouth)) = [(1, SendConnectMessage)]"
proof -
  let ?s = "handleConnectMessage_notConnected exampleSouth"
  have t: "timers ?s = [(0, Connect)]" and h: "heldTimers ?s = {0}" and n: "nextTimer ?s = 1"
    by (simp_all add: run_defs heldTimers_def)
  have e: "reportsError (errorMessage ''Server down'' True)"
    "Disconnected (errorMessage ''Server down'' True)"
    by (simp_all add: reportsError_def errorMessage_def)
  show ?thesis
    using disconnect_cancels_held_timers [of ?s exampleSettings "errorMessage ''Server down'' True"]
    by (simp add: t h n e pendingTimers_def)
qed

text \<open>
  Claim C5 as stated fails: a connected connector awaiting a read receives an error with
  the \<open>Disconnected\<close> flag. The query rejects; the \<open>disconnect\<close> called by
  \<open>handleReadMessage\<close> leaves no timer pending; after it, a reconnection timer has
  been scheduled, and it fires.
\<close>

theorem reconnect_after_disconnect_counterexample:
  "fst (historyQuery exampleSettings 1000 5000
          [ReadMessage (errorMessage ''Server down'' True)] connectedSouth)
     = Throws (AgentError ''Server down'')
   \<and> timers (disconnect (historyQuery_begin 1000 5000 connectedSouth)) = []
   \<and> timers (snd (historyQuery exampleSettings 1000 5000
          [ReadMessage (errorMessage ''Server down'' True)] connectedSouth))
       = [(1, SendConnectMessage)]
   \<and> reconnections (fireTimer exampleSettings 1
        (snd (historyQuery exampleSettings 1000 5000
          [ReadMessage (errorMessage ''Server down'' True)] connectedSouth))) = 1"
  by (simp add: run_defs)

text \<open>
  Claim C7. A second \<open>disconnect\<close> after a first one changes nothing; the connector
  is disconnected after any \<open>disconnect\<close>; and on a connector that is already
  disconnected \<open>disconnect\<close> leaves the whole state as it was.
\<close>

theorem disconnect_idempotent:
  "disconnect (disconnect s) = disconnect s
   \<and> isDisconnected (disconnect s)
   \<and> (isDisconnected s \<longrightarrow> disconnect s = s)"
  using disconnect_noop [OF isDisconnected_disconnect] isDisconnected_disconnect disconnect_noop
  by blast

theorem disconnect_idempotent_witness:
  "isDisconnected exampleSouth \<and> disconnect exampleSouth = exampleSouth
   \<and> disconnect (disconnect connectedSouth) = disconnect connectedSouth"
proof -
  have d: "isDisconnected exampleSouth"
    by (simp add: isDisconnected_def exampleSouth_def newSouth_def heldTimers_def pendingTimers_def)
  show ?thesis
    using disconnect_idempotent [of exampleSouth] disconnect_idempotent [of connectedSouth] d
    by simp
qed

end
